theory Spec2Isabelle
  imports Complex_Main
begin

section \<open>The round-robin sequencer (\<open>round_robin_list\<close>)\<close>

text \<open>
  The generator \<open>round_robin_list\<close> of \<open>staplelib/commands.py\<close> keeps two variables:
  the counter \<open>pending\<close> and the iterator \<open>cycled_iterables\<close>, an \<open>itertools.cycle\<close> over
  the list iterators \<open>iter(it)\<close>.

  \<^item> A list iterator is an object with state, shared by every place that refers to it.
    The model keeps the iterators in a store \<open>its\<close>: iterator number \<open>i\<close> has still to
    deliver \<open>its ! i\<close>. \<open>next(it)\<close> on a nonempty iterator delivers the head and leaves the
    tail in the store; on an empty one it raises \<open>StopIteration\<close>.
  \<^item> An \<open>itertools.cycle\<close> delivers the elements of its source and then repeats the saved
    copy forever. From any moment on, what it will deliver is a finite period repeated
    forever; the model keeps that period, a list of iterator numbers starting at the
    element that comes next. Taking one element moves it to the end of the period.
  \<^item> \<open>itertools.islice(c, n)\<close> delivers the next \<open>n\<close> elements of \<open>c\<close> (none when \<open>c\<close>
    is empty).
  \<^item> The values yielded are collected in \<open>out\<close>, in the order of the \<open>yield\<close>s: the result
    is what \<open>list(round_robin_list(iterables))\<close> returns. A run that never finishes has
    no result (\<open>None\<close>).
\<close>

definition islice_cycle :: "'a list \<Rightarrow> nat \<Rightarrow> 'a list" where
  "islice_cycle period n = (if period = [] then [] else take n (concat (replicate n period)))"

partial_function (option) round_robin_loop ::
  "nat \<Rightarrow> nat list \<Rightarrow> 'a list list \<Rightarrow> 'a list \<Rightarrow> 'a list option" where
  "round_robin_loop pending cycled_iterables its out =
     (if pending = 0 then Some out
      else case cycled_iterables of
        [] \<Rightarrow> round_robin_loop pending cycled_iterables its out
      | it # rest \<Rightarrow>
          (case its ! it of
             x # xs \<Rightarrow> round_robin_loop pending (rest @ [it]) (its[it := xs]) (out @ [x])
           | [] \<Rightarrow> round_robin_loop (pending - 1)
                    (islice_cycle (rest @ [it]) (pending - 1)) its out))"

declare round_robin_loop.simps [code]

definition round_robin_list :: "'a list list \<Rightarrow> 'a list option" where
  "round_robin_list iterables =
     round_robin_loop (length iterables) [0..<length iterables] iterables []"

text \<open>
  The sequence the specification describes: take one element from each still-nonempty list,
  from left to right, and repeat with what is left of them until all lists are exhausted.
\<close>

function interleave_spec :: "'a list list \<Rightarrow> 'a list" where
  "interleave_spec xss =
     (if filter (\<lambda>xs. xs \<noteq> []) xss = [] then []
      else map hd (filter (\<lambda>xs. xs \<noteq> []) xss)
           @ interleave_spec (map tl (filter (\<lambda>xs. xs \<noteq> []) xss)))"
  by pat_completeness auto

termination interleave_spec
proof (relation "measure (\<lambda>xss. sum_list (map length xss))")
  show "wf (measure (\<lambda>xss. sum_list (map length xss)))" by simp
next
  fix xss :: "'a list list"
  assume live: "filter (\<lambda>xs. xs \<noteq> []) xss \<noteq> []"
  have "sum_list (map length (map tl (filter (\<lambda>xs. xs \<noteq> []) yss)))
          + length (filter (\<lambda>xs. xs \<noteq> []) yss) = sum_list (map length yss)"
    for yss :: "'a list list"
  proof (induction yss)
    case Nil
    show ?case by simp
  next
    case (Cons a yss)
    then show ?case by (cases a) simp_all
  qed
  from this [of xss] live
  have "sum_list (map length (map tl (filter (\<lambda>xs. xs \<noteq> []) xss))) < sum_list (map length xss)"
    by (cases "filter (\<lambda>xs. xs \<noteq> []) xss") simp_all
  then show "(map tl (filter (\<lambda>xs. xs \<noteq> []) xss), xss) \<in> measure (\<lambda>xss. sum_list (map length xss))"
    by simp
qed

declare interleave_spec.simps [simp del]

text \<open>
  To state that no source list is reordered, every element is tagged with the position of
  the list it comes from.
\<close>

definition tagged :: "'a list list \<Rightarrow> (nat \<times> 'a) list list" where
  "tagged xss = map (\<lambda>(i, xs). map (Pair i) xs) (zip [0..<length xss] xss)"

definition from_source :: "nat \<Rightarrow> (nat \<times> 'a) list \<Rightarrow> 'a list" where
  "from_source i out = map snd (filter (\<lambda>p. fst p = i) out)"

text \<open>
  A function for the proofs: the order in which a queue of lists is served when the list
  at the front gives its first element and goes to the back, and an empty list leaves.
\<close>

function queue_order :: "'a list list \<Rightarrow> 'a list" where
  "queue_order [] = []"
| "queue_order ([] # rest) = queue_order rest"
| "queue_order ((x # xs) # rest) = x # queue_order (rest @ [xs])"
  by pat_completeness auto
termination
  by (relation "measure (\<lambda>xss. sum_list (map length xss) + length xss)") auto


section \<open>Exceptions, strings and the document library\<close>

text \<open>
  Modelled from the spec: the exception class \<open>CommandError\<close> of
  \<open>staplelib/__init__.py\<close>, which is not among the sources. It is the single command error
  of the specification, an exception like any other (the clause \<open>except Exception\<close> catches
  it), raised with a message, \<open>CommandError("...")\<close>, or with the exception it reports,
  \<open>CommandError(e)\<close>. The other constructors are exceptions of Python itself;
  \<open>LibraryError\<close> stands for whatever the helpers of \<open>iohelper\<close> raise themselves.
\<close>

datatype exn =
    CommandError string
  | CommandError_of exn
  | IndexError
  | ValueError
  | AssertionError
  | LibraryError string

text \<open>Python's \<open>str\<close> on integers, used by \<open>format\<close> and by the \<open>%\<close> operator.\<close>

definition digit_char :: "nat \<Rightarrow> char" where
  "digit_char d = ''0123456789'' ! d"

fun str_nat :: "nat \<Rightarrow> string" where
  "str_nat n = (if n < 10 then [digit_char n] else str_nat (n div 10) @ [digit_char (n mod 10)])"

declare str_nat.simps [simp del]

definition str_int :: "int \<Rightarrow> string" where
  "str_int i = (if i < 0 then CHR ''-'' # str_nat (nat (- i)) else str_nat (nat i))"

text \<open>
  A \<open>PdfFileReader\<close> is known by the file it reads and its number of pages. It keeps one
  page object for each page: \<open>getPage\<close> returns the same object whenever it is asked for
  the same index (from 0). A page object can be changed: \<open>rotateClockwise\<close> asserts that the
  angle is a multiple of 90, adds it to the rotation of the object, in place, and returns the
  object. The state of the page objects is the rotation added to each of them so far; in
  a reader just opened no page object has been rotated.
\<close>

datatype pdf = PdfFileReader (pdf_file: string) (getNumPages: int)

datatype page_object = PageObject (object_file: string) (object_index: int)

type_synonym page_objects = "page_object \<Rightarrow> int"

definition unrotated :: page_objects where
  "unrotated = (\<lambda>p. 0)"

definition getPage :: "pdf \<Rightarrow> int \<Rightarrow> page_object" where
  "getPage reader i = PageObject (pdf_file reader) i"

definition rotateClockwise ::
  "page_object \<Rightarrow> int \<Rightarrow> page_objects \<Rightarrow> exn + page_object \<times> page_objects" where
  "rotateClockwise p angle objs =
     (if angle mod 90 = 0 then Inr (p, objs(p := objs p + angle)) else Inl AssertionError)"

text \<open>
  A page as a writer puts it into a file: the file it was read from, its index there and
  the rotation added to it. A writer keeps the page objects it was given, so what it
  writes for a page object is the state of the object at that time.
\<close>

datatype page = Page (page_file: string) (page_index: int) (page_rotation: int)

definition written :: "page_objects \<Rightarrow> page_object \<Rightarrow> page" where
  "written objs p = Page (object_file p) (object_index p) (objs p)"

text \<open>
  Modelled from the spec: the rotation of a range token, one of 0, 90, 180 and 270 degrees.
  The constants are those of \<open>iohelper.py\<close>, which is not among the sources;
  \<open>iohelper.ROTATION_NONE\<close> is the one \<open>commands.py\<close> names, rotation 0.
\<close>

datatype rotation = ROTATION_NONE | ROTATION_90 | ROTATION_180 | ROTATION_270

fun degrees :: "rotation \<Rightarrow> int" where
  "degrees ROTATION_NONE = 0"
| "degrees ROTATION_90 = 90"
| "degrees ROTATION_180 = 180"
| "degrees ROTATION_270 = 270"

text \<open>
  One entry of the list that \<open>iohelper.parse_ranges\<close> returns: the dictionary with the
  keys \<open>name\<close>, \<open>pdf\<close> and \<open>pages\<close>, the last a list of pairs (page number, rotation).
\<close>

record input_args =
  name :: string
  pdf :: pdf
  pages :: "(int \<times> rotation) list"

text \<open>
  What the commands take from outside \<open>commands.py\<close>: the option \<open>destdir\<close> of
  \<open>staplelib.OPTIONS\<close> and the helpers of \<open>iohelper\<close>, each a parameter since
  \<open>iohelper.py\<close> is not among the sources. A helper that raises returns the exception.
  \<open>splitext_basename f\<close> is \<open>os.path.splitext(os.path.basename(f))\<close>. Console output
  (the option \<open>verbose\<close>) is left out.
\<close>

record env =
  destdir :: string
  parse_ranges :: "string list \<Rightarrow> exn + input_args list"
  check_output_file :: "string \<Rightarrow> exn option"
  expand_input_files :: "string list \<Rightarrow> exn + string list"
  read_pdf :: "string \<Rightarrow> exn + pdf"
  splitext_basename :: "string \<Rightarrow> string \<times> string"

text \<open>
  Modelled from the spec: \<open>iohelper.write_pdf\<close>, a function of \<open>iohelper.py\<close>, which is
  not among the sources; the specification leaves the writing of a file to the document
  library. The state is the sequence of files written so far: each call adds the path and
  the pages of the writer. Paths are POSIX paths (\<open>os.path.isabs\<close>, \<open>os.sep\<close>).
\<close>

type_synonym world = "(string \<times> page list) list"

definition write_pdf :: "page list \<Rightarrow> string \<Rightarrow> world \<Rightarrow> world" where
  "write_pdf output path w = w @ [(path, output)]"

definition isabs :: "string \<Rightarrow> bool" where
  "isabs path = (case path of [] \<Rightarrow> False | c # _ \<Rightarrow> c = CHR ''/'')"

definition os_sep :: string where
  "os_sep = ''/''"

definition output_path :: "env \<Rightarrow> string \<Rightarrow> string" where
  "output_path E outputfilename =
     (if isabs outputfilename then outputfilename else destdir E @ os_sep @ outputfilename)"


section \<open>The commands \<open>zip_pdfs\<close>, \<open>select\<close> and \<open>delete\<close>\<close>

text \<open>
  The range of pages to use from one input. On the inclusive path it is the list given,
  or every page when that list is empty (\<open>input_args['pages'] or [...]\<close>); on the exclusive
  path (\<open>inverse\<close>) it is every page whose number is not among those given.
\<close>

definition all_pages :: "input_args \<Rightarrow> (int \<times> rotation) list" where
  "all_pages ia = map (\<lambda>p. (p, ROTATION_NONE)) [1..getNumPages (pdf ia)]"

definition pagerange :: "bool \<Rightarrow> input_args \<Rightarrow> (int \<times> rotation) list" where
  "pagerange inverse' ia =
     (if \<not> inverse' then (if pages ia \<noteq> [] then pages ia else all_pages ia)
      else (let excluded = map fst (pages ia)
            in map (\<lambda>p. (p, ROTATION_NONE))
                 (filter (\<lambda>p. p \<notin> set excluded) [1..getNumPages (pdf ia)])))"

text \<open>
  The loop \<open>for pageno, rotate in pagerange\<close>, the same in \<open>zip_pdfs\<close> (where the pages
  go to the list \<open>pagestozip\<close>) and in \<open>select\<close> (where they go to the writer
  \<open>output\<close>). It runs on the page objects of the reader of the input: \<open>added\<close> are the
  objects it has added so far, \<open>objs\<close> is the state of the page objects.
\<close>

definition page_not_found :: "int \<Rightarrow> string \<Rightarrow> exn" where
  "page_not_found pageno file = CommandError (''Page '' @ str_int pageno @ '' not found in '' @ file @ ''.'')"

fun page_loop ::
  "input_args \<Rightarrow> (int \<times> rotation) list \<Rightarrow> page_object list \<Rightarrow> page_objects
     \<Rightarrow> exn + page_object list \<times> page_objects" where
  "page_loop ia [] added objs = Inr (added, objs)"
| "page_loop ia ((pageno, rotate') # rest) added objs =
     (if 1 \<le> pageno \<and> pageno \<le> getNumPages (pdf ia)
      then (case rotateClockwise (getPage (pdf ia) (pageno - 1)) (degrees rotate') objs of
              Inl e \<Rightarrow> Inl e
            | Inr (p, objs') \<Rightarrow> page_loop ia rest (added @ [p]) objs')
      else Inl (page_not_found pageno (name ia)))"

text \<open>
  What the loop adds for one input, as it will be written; \<open>acc\<close> is what the inputs
  before it have added. Modelled from the spec: the file of an input is opened for that
  input (once per token), so each input has a reader of its own, just opened, and the page
  objects of two inputs are different objects even when both name the same file. The
  objects that the loop adds are written in the state in which the loop leaves them: no
  later statement of the command touches the page objects of this reader.
\<close>

definition add_pages :: "input_args \<Rightarrow> (int \<times> rotation) list \<Rightarrow> page list \<Rightarrow> exn + page list" where
  "add_pages ia pairs acc =
     (case page_loop ia pairs [] unrotated of
        Inl e \<Rightarrow> Inl e
      | Inr (added, objs) \<Rightarrow> Inr (acc @ map (written objs) added))"

text \<open>The loop \<open>for input_args in filesandranges\<close> of \<open>select\<close>.\<close>

fun select_files :: "bool \<Rightarrow> input_args list \<Rightarrow> page list \<Rightarrow> exn + page list" where
  "select_files inverse' [] output = Inr output"
| "select_files inverse' (ia # rest) output =
     (case add_pages ia (pagerange inverse' ia) output of
        Inl e \<Rightarrow> Inl e
      | Inr output' \<Rightarrow> select_files inverse' rest output')"

text \<open>The loop \<open>for input_args in filesandranges\<close> of \<open>zip_pdfs\<close>.\<close>

fun zip_files :: "input_args list \<Rightarrow> page list list \<Rightarrow> exn + page list list" where
  "zip_files [] filestozip = Inr filestozip"
| "zip_files (ia # rest) filestozip =
     (case add_pages ia (pagerange False ia) [] of
        Inl e \<Rightarrow> Inl e
      | Inr pagestozip \<Rightarrow> zip_files rest (filestozip @ [pagestozip]))"

text \<open>
  A command returns the exception it raised, or \<open>None\<close>, and the state it leaves.
  \<open>args[:-1]\<close> is \<open>butlast args\<close>; \<open>args[-1]\<close> raises \<open>IndexError\<close> on the empty list.
\<close>

definition both_required :: exn where
  "both_required = CommandError ''Both input and output filenames are required.''"

definition select :: "env \<Rightarrow> string list \<Rightarrow> bool \<Rightarrow> world \<Rightarrow> exn option \<times> world" where
  "select E args inverse' w =
     (case parse_ranges E (butlast args) of
        Inl e \<Rightarrow> (Some e, w)
      | Inr filesandranges \<Rightarrow>
          if args = [] then (Some IndexError, w)
          else let outputfilename = last args in
            if filesandranges = [] \<or> outputfilename = [] then (Some both_required, w)
            else (case check_output_file E outputfilename of
                Some e \<Rightarrow> (Some e, w)
              | None \<Rightarrow>
                  (case select_files inverse' filesandranges [] of
                     Inl e \<Rightarrow> (Some (CommandError_of e), w)
                   | Inr output \<Rightarrow> (None, write_pdf output (output_path E outputfilename) w))))"

definition delete :: "env \<Rightarrow> string list \<Rightarrow> world \<Rightarrow> exn option \<times> world" where
  "delete E args w = select E args True w"

text \<open>
  \<open>zip_pdfs\<close> runs the round-robin generator to its end (\<open>list(round_robin_list(...))\<close>);
  the outer \<open>None\<close> is a run in which it never ends.
\<close>

definition zip_pdfs :: "env \<Rightarrow> string list \<Rightarrow> world \<Rightarrow> (exn option \<times> world) option" where
  "zip_pdfs E args w =
     (case parse_ranges E (butlast args) of
        Inl e \<Rightarrow> Some (Some e, w)
      | Inr filesandranges \<Rightarrow>
          if args = [] then Some (Some IndexError, w)
          else let outputfilename = last args in
            if filesandranges = [] \<or> outputfilename = [] then Some (Some both_required, w)
            else (case zip_files filesandranges [] of
                Inl e \<Rightarrow> Some (Some (CommandError_of e), w)
              | Inr filestozip \<Rightarrow>
                  (case round_robin_list filestozip of
                     None \<Rightarrow> None
                   | Some output \<Rightarrow> Some (None, write_pdf output (output_path E outputfilename) w))))"


section \<open>The commands \<open>split\<close> and \<open>info\<close>\<close>

text \<open>
  \<open>math.ceil(math.log10(x))\<close> for an integer \<open>x\<close>, as Python 3 computes it: an integer,
  and \<open>ValueError\<close> when \<open>x\<close> is not positive. The logarithm is the real one; the
  rounding of floating point is left out (\<open>math.log10\<close> is exact at the powers of ten).
\<close>

definition ceil_log10 :: "int \<Rightarrow> exn + int" where
  "ceil_log10 x = (if x \<le> 0 then Inl ValueError else Inr \<lceil>log 10 (of_int x)\<rceil>)"

text \<open>
  The template is the text \<open>base_%0Wd ext\<close> with \<open>W = str(math.ceil(...))\<close>, and
  \<open>output_template % n\<close> fills in the number \<open>n\<close>: its decimal digits, with zeros in
  front up to \<open>W\<close> characters. For \<open>W = 0\<close> the text is \<open>%00d\<close>, two zero flags and no
  width, and nothing is put in front. A file name holding a percent sign is not covered.
\<close>

definition zero_pad :: "nat \<Rightarrow> string \<Rightarrow> string" where
  "zero_pad width s = replicate (width - length s) CHR ''0'' @ s"

definition output_template :: "string \<Rightarrow> string \<Rightarrow> int \<Rightarrow> nat \<Rightarrow> string" where
  "output_template base ext width n = base @ ''_'' @ zero_pad (nat width) (str_nat n) @ ext"

text \<open>The loop \<open>for pageno in range(input_file.getNumPages())\<close>: one file per page.\<close>

fun write_pages :: "env \<Rightarrow> pdf \<Rightarrow> (nat \<Rightarrow> string) \<Rightarrow> nat list \<Rightarrow> world \<Rightarrow> world" where
  "write_pages E input_file template [] w = w"
| "write_pages E input_file template (pageno # rest) w =
     write_pages E input_file template rest
       (write_pdf [written unrotated (getPage input_file (int pageno))]
          (destdir E @ os_sep @ template (pageno + 1)) w)"

text \<open>
  The loop \<open>for input_file in inputs\<close>; \<open>files[filecount]\<close> is the name the reader was
  opened from, so the loop runs over the pairs of both.
\<close>

fun split_inputs :: "env \<Rightarrow> (string \<times> pdf) list \<Rightarrow> world \<Rightarrow> exn option \<times> world" where
  "split_inputs E [] w = (None, w)"
| "split_inputs E ((f, input_file) # rest) w =
     (case splitext_basename E f of (base, ext) \<Rightarrow>
        (case ceil_log10 (getNumPages input_file) of
           Inl e \<Rightarrow> (Some e, w)
         | Inr width \<Rightarrow>
             split_inputs E rest
               (write_pages E input_file (output_template base ext width)
                  [0..<nat (getNumPages input_file)] w)))"

fun read_inputs :: "env \<Rightarrow> string list \<Rightarrow> exn + pdf list" where
  "read_inputs E [] = Inr []"
| "read_inputs E (f # fs) =
     (case read_pdf E f of
        Inl e \<Rightarrow> Inl e
      | Inr reader \<Rightarrow>
          (case read_inputs E fs of Inl e \<Rightarrow> Inl e | Inr readers \<Rightarrow> Inr (reader # readers)))"

definition no_input_files :: exn where
  "no_input_files = CommandError ''No input files specified.''"

definition split :: "env \<Rightarrow> string list \<Rightarrow> world \<Rightarrow> exn option \<times> world" where
  "split E args w =
     (case expand_input_files E args of
        Inl e \<Rightarrow> (Some e, w)
      | Inr files \<Rightarrow>
          if files = [] then (Some no_input_files, w)
          else (case read_inputs E files of
              Inl e \<Rightarrow> (Some (CommandError_of e), w)
            | Inr inputs \<Rightarrow> split_inputs E (zip files inputs) w))"

text \<open>\<open>info\<close> only prints; what is left of it is whether it raises.\<close>

definition info :: "env \<Rightarrow> string list \<Rightarrow> exn option" where
  "info E args =
     (case expand_input_files E args of
        Inl e \<Rightarrow> Some e
      | Inr files \<Rightarrow>
          if files = [] then Some no_input_files
          else (case read_inputs E files of Inl e \<Rightarrow> Some e | Inr inputs \<Rightarrow> None))"


section \<open>An environment for the examples\<close>

text \<open>
  In the examples the destination directory is \<open>out\<close>, the range parser returns a given
  list of inputs whenever it is given tokens, no output file exists yet, the arguments of
  \<open>split\<close> are the file names themselves, every file read has a given number of pages,
  and file names have a single dot.
\<close>

definition example_env :: "input_args list \<Rightarrow> int \<Rightarrow> env" where
  "example_env filesandranges n =
     \<lparr> destdir = ''out'',
       parse_ranges = (\<lambda>tokens. if tokens = [] then Inr [] else Inr filesandranges),
       check_output_file = (\<lambda>f. None),
       expand_input_files = (\<lambda>args. Inr args),
       read_pdf = (\<lambda>f. Inr (PdfFileReader f n)),
       splitext_basename = (\<lambda>f. (takeWhile (\<lambda>c. c \<noteq> CHR ''.'') f, dropWhile (\<lambda>c. c \<noteq> CHR ''.'') f)) \<rparr>"

definition example_file :: "string \<Rightarrow> int \<Rightarrow> (int \<times> rotation) list \<Rightarrow> input_args" where
  "example_file f n ps = \<lparr> name = f, pdf = PdfFileReader f n, pages = ps \<rparr>"


section \<open>Vocabulary of the statements\<close>

text \<open>
  A pair (page number, rotation) is in bounds for an input when the number is a page of
  its document; \<open>page_of\<close> is the page of that number with the rotation of the pair.
\<close>

definition in_bounds :: "input_args \<Rightarrow> int \<times> rotation \<Rightarrow> bool" where
  "in_bounds ia pr = (1 \<le> fst pr \<and> fst pr \<le> getNumPages (pdf ia))"

definition page_of :: "input_args \<Rightarrow> int \<times> rotation \<Rightarrow> page" where
  "page_of ia pr = Page (pdf_file (pdf ia)) (fst pr - 1) (degrees (snd pr))"

text \<open>
  A function for the proofs: the state in which the loop leaves the page objects when
  every pair of the range is in bounds.
\<close>

fun rotate_all :: "input_args \<Rightarrow> (int \<times> rotation) list \<Rightarrow> page_objects \<Rightarrow> page_objects" where
  "rotate_all ia [] objs = objs"
| "rotate_all ia (x # rest) objs =
     rotate_all ia rest
       (objs(getPage (pdf ia) (fst x - 1) := objs (getPage (pdf ia) (fst x - 1)) + degrees (snd x)))"

text \<open>
  The rotations of all pairs of a range that name a page number, added up, and the pages
  that a range emits: one for each pair, in the order of the range, each the page of the
  number of its pair with all the rotations that the range gives that number.
\<close>

definition total_rotation :: "(int \<times> rotation) list \<Rightarrow> int \<Rightarrow> int" where
  "total_rotation pairs pageno =
     sum_list (map (\<lambda>x. degrees (snd x)) (filter (\<lambda>x. fst x = pageno) pairs))"

definition emitted :: "input_args \<Rightarrow> (int \<times> rotation) list \<Rightarrow> page list" where
  "emitted ia pairs =
     map (\<lambda>x. Page (pdf_file (pdf ia)) (fst x - 1) (total_rotation pairs (fst x))) pairs"

text \<open>
  A call gives its inputs when there are arguments, the range parser returns a nonempty
  list for all but the last of them, and the last, the output file name, is not empty.
\<close>

definition inputs_given :: "env \<Rightarrow> string list \<Rightarrow> input_args list \<Rightarrow> bool" where
  "inputs_given E args filesandranges =
     (args \<noteq> [] \<and> parse_ranges E (butlast args) = Inr filesandranges
      \<and> filesandranges \<noteq> [] \<and> last args \<noteq> [])"

text \<open>The page numbers that \<open>delete\<close> keeps of one input, and the input without the
  numbers that are not pages of its document.\<close>

definition kept_numbers :: "input_args \<Rightarrow> int list" where
  "kept_numbers ia = filter (\<lambda>p. p \<notin> fst ` set (pages ia)) [1..getNumPages (pdf ia)]"

definition without_out_of_range :: "input_args \<Rightarrow> input_args" where
  "without_out_of_range ia = ia\<lparr>pages := filter (in_bounds ia) (pages ia)\<rparr>"

text \<open>The pages of a whole document in their order, and the pages that \<open>delete\<close>
  keeps of one input, each as the loop adds it with rotation 0.\<close>

definition whole_document :: "input_args \<Rightarrow> page list" where
  "whole_document ia = map (\<lambda>p. Page (pdf_file (pdf ia)) (p - 1) 0) [1..getNumPages (pdf ia)]"

definition kept_pages :: "input_args \<Rightarrow> page list" where
  "kept_pages ia = map (\<lambda>p. Page (pdf_file (pdf ia)) (p - 1) 0) (kept_numbers ia)"


section \<open>The round-robin sequencer yields the rounds of the specification\<close>

lemma islice_cycle_rest: "islice_cycle (rest @ [it]) (length rest) = rest"
proof (cases rest)
  case Nil
  then show ?thesis by (simp add: islice_cycle_def)
next
  case (Cons a as)
  then show ?thesis by (simp add: islice_cycle_def)
qed

lemma round_robin_loop_queue:
  assumes "pending = length cyc" and "distinct cyc" and "\<forall>i\<in>set cyc. i < length its"
  shows "round_robin_loop pending cyc its out = Some (out @ queue_order (map ((!) its) cyc))"
  using assms
proof (induction "map ((!) its) cyc" arbitrary: pending cyc its out rule: queue_order.induct)
  case 1
  then show ?case by (subst round_robin_loop.simps) simp
next
  case (2 rest)
  from "2.hyps"(2) obtain i c where cyc: "cyc = i # c" and i: "its ! i = []" and rest: "rest = map ((!) its) c"
    by (cases cyc) auto
  have "round_robin_loop (length c) c its out = Some (out @ queue_order (map ((!) its) c))"
    using "2.hyps"(1) [OF rest] "2.prems" cyc by simp
  then show ?case
    using "2.prems" cyc i by (subst round_robin_loop.simps) (simp add: islice_cycle_rest)
next
  case (3 x xs rest)
  from "3.hyps"(2) obtain i c where cyc: "cyc = i # c" and i: "its ! i = x # xs" and rest: "rest = map ((!) its) c"
    by (cases cyc) auto
  from "3.prems" cyc have ic: "i \<notin> set c" and il: "i < length its" and cl: "\<forall>j\<in>set c. j < length its"
    and dc: "distinct c" by auto
  have "\<And>j. j \<in> set c \<Longrightarrow> its[i := xs] ! j = its ! j"
    using ic by (metis nth_list_update_neq)
  then have "map ((!) (its[i := xs])) c = rest"
    unfolding rest by simp
  then have eq: "rest @ [xs] = map ((!) (its[i := xs])) (c @ [i])"
    using il by simp
  have step: "round_robin_loop pending cyc its out
                = round_robin_loop pending (c @ [i]) (its[i := xs]) (out @ [x])"
    using "3.prems"(1) cyc i by (subst round_robin_loop.simps) simp
  have "round_robin_loop pending (c @ [i]) (its[i := xs]) (out @ [x])
          = Some ((out @ [x]) @ queue_order (map ((!) (its[i := xs])) (c @ [i])))"
    using "3.hyps"(1) [OF eq] "3.prems" cyc ic dc cl il by simp
  then have "round_robin_loop pending cyc its out = Some ((out @ [x]) @ queue_order (rest @ [xs]))"
    unfolding step eq [symmetric] .
  then show ?case
    unfolding "3.hyps"(2) [symmetric] by simp
qed

lemma queue_order_round:
  "queue_order (xss @ yss)
     = map hd (filter (\<lambda>xs. xs \<noteq> []) xss) @ queue_order (yss @ map tl (filter (\<lambda>xs. xs \<noteq> []) xss))"
proof (induction xss arbitrary: yss)
  case Nil
  show ?case by simp
next
  case (Cons a xss)
  show ?case
  proof (cases a)
    case Nil
    then show ?thesis using Cons.IH [of yss] by simp
  next
    case (Cons x xs)
    then show ?thesis using Cons.IH [of "yss @ [xs]"] by simp
  qed
qed

lemma queue_order_interleave: "queue_order xss = interleave_spec xss"
proof (induction xss rule: interleave_spec.induct)
  case (1 xss)
  show ?case
  proof (cases "filter (\<lambda>xs. xs \<noteq> []) xss = []")
    case True
    with queue_order_round [of xss "[]"] show ?thesis
      by (simp add: interleave_spec.simps [of xss])
  next
    case False
    with queue_order_round [of xss "[]"] "1.IH" show ?thesis
      by (simp add: interleave_spec.simps [of xss])
  qed
qed


lemma round_robin_list_interleave: "round_robin_list xss = Some (interleave_spec xss)"
  unfolding round_robin_list_def
  by (simp add: round_robin_loop_queue map_nth queue_order_interleave)

lemma set_interleave_spec: "set (interleave_spec xss) \<subseteq> \<Union> (set ` set xss)"
proof (induction xss rule: interleave_spec.induct)
  case (1 xss)
  show ?case
  proof (cases "filter (\<lambda>xs. xs \<noteq> []) xss = []")
    case True
    then show ?thesis by (simp add: interleave_spec.simps [of xss])
  next
    case False
    have hd_in: "set (map hd (filter (\<lambda>xs. xs \<noteq> []) xss)) \<subseteq> \<Union> (set ` set xss)"
      by auto
    have "\<Union> (set ` set (map tl (filter (\<lambda>xs. xs \<noteq> []) xss))) \<subseteq> \<Union> (set ` set xss)"
      by (auto dest: list.set_sel(2))
    with "1.IH" [OF False] have "set (interleave_spec (map tl (filter (\<lambda>xs. xs \<noteq> []) xss))) \<subseteq> \<Union> (set ` set xss)"
      by blast
    with hd_in False show ?thesis
      by (simp add: interleave_spec.simps [of xss])
  qed
qed

lemma filter_interleave_none:
  assumes "\<forall>zs\<in>set xss. \<forall>x\<in>set zs. \<not> P x"
  shows "filter P (interleave_spec xss) = []"
  using assms set_interleave_spec [of xss] by (auto simp: filter_empty_conv)

lemma filter_heads_none:
  assumes "\<forall>zs\<in>set xss. \<forall>x\<in>set zs. \<not> P x"
  shows "filter P (map hd (filter (\<lambda>xs. xs \<noteq> []) xss)) = []"
  using assms by (auto simp: filter_empty_conv)

lemma filter_interleave_one:
  assumes "\<forall>x\<in>set ys. P x"
    and "\<forall>zs\<in>set A. \<forall>x\<in>set zs. \<not> P x"
    and "\<forall>zs\<in>set B. \<forall>x\<in>set zs. \<not> P x"
  shows "filter P (interleave_spec (A @ ys # B)) = ys"
  using assms
proof (induction ys arbitrary: A B)
  case Nil
  then have "\<forall>zs\<in>set (A @ [] # B). \<forall>x\<in>set zs. \<not> P x" by auto
  then show ?case by (rule filter_interleave_none)
next
  case (Cons y ys)
  let ?live = "filter (\<lambda>xs. xs \<noteq> [])"
  let ?A = "map tl (?live A)" and ?B = "map tl (?live B)"
  have live: "?live (A @ (y # ys) # B) = ?live A @ (y # ys) # ?live B" by simp
  have A': "\<forall>zs\<in>set ?A. \<forall>x\<in>set zs. \<not> P x"
    using Cons.prems(2) by (auto dest: list.set_sel(2))
  have B': "\<forall>zs\<in>set ?B. \<forall>x\<in>set zs. \<not> P x"
    using Cons.prems(3) by (auto dest: list.set_sel(2))
  have rest: "filter P (interleave_spec (?A @ ys # ?B)) = ys"
    using Cons.IH [OF _ A' B'] Cons.prems(1) by simp
  have "interleave_spec (A @ (y # ys) # B)
          = (map hd (?live A) @ y # map hd (?live B)) @ interleave_spec (?A @ ys # ?B)"
    by (subst interleave_spec.simps) (simp add: live)
  then show ?case
    using rest filter_heads_none [OF Cons.prems(2)] filter_heads_none [OF Cons.prems(3)] Cons.prems(1)
    by simp
qed

lemma from_source_interleave_tagged:
  assumes i: "i < length xss"
  shows "from_source i (interleave_spec (tagged xss)) = xss ! i"
proof -
  let ?t = "tagged xss"
  have len: "length ?t = length xss" by (simp add: tagged_def)
  have nth: "\<And>j. j < length xss \<Longrightarrow> ?t ! j = map (Pair j) (xss ! j)" by (simp add: tagged_def)
  have split: "?t = take i ?t @ map (Pair i) (xss ! i) # drop (Suc i) ?t"
    using id_take_nth_drop [of i ?t] i len nth by simp
  have other: "\<And>zs. zs \<in> set (take i ?t) \<or> zs \<in> set (drop (Suc i) ?t) \<Longrightarrow> \<forall>x\<in>set zs. fst x \<noteq> i"
  proof -
    fix zs assume "zs \<in> set (take i ?t) \<or> zs \<in> set (drop (Suc i) ?t)"
    then have "\<exists>j. j < length xss \<and> j \<noteq> i \<and> zs = ?t ! j"
    proof
      assume "zs \<in> set (take i ?t)"
      then obtain k where "k < i" and "zs = ?t ! k"
        using i len by (auto simp: in_set_conv_nth)
      with i show ?thesis by (intro exI [of _ k]) simp
    next
      assume "zs \<in> set (drop (Suc i) ?t)"
      then obtain k where "k < length xss - Suc i" and "zs = ?t ! (Suc i + k)"
        using i len by (auto simp: in_set_conv_nth)
      then show ?thesis by (intro exI [of _ "Suc i + k"]) simp
    qed
    then obtain j where "j < length xss" "j \<noteq> i" "zs = ?t ! j" by blast
    then show "\<forall>x\<in>set zs. fst x \<noteq> i" using nth by auto
  qed
  have "filter (\<lambda>p. fst p = i) (interleave_spec (take i ?t @ map (Pair i) (xss ! i) # drop (Suc i) ?t))
          = map (Pair i) (xss ! i)"
    by (rule filter_interleave_one) (use other in auto)
  with split have "filter (\<lambda>p. fst p = i) (interleave_spec ?t) = map (Pair i) (xss ! i)" by simp
  then show ?thesis by (simp add: from_source_def comp_def)
qed

lemma sources_interleave_tagged:
  "map (\<lambda>i. from_source i (interleave_spec (tagged xss))) [0..<length xss] = xss"
  by (rule nth_equalityI) (simp_all add: from_source_interleave_tagged)

text \<open>
  C1. For every list of finite lists, \<open>round_robin_list\<close> comes to an end and has yielded
  exactly the sequence of the specification: one element from each still-nonempty list from
  left to right, again and again until all lists are exhausted. No source list is reordered:
  with every element tagged by the position of its list, the elements that carry tag \<open>i\<close>
  come out as list \<open>i\<close> was. For \<open>[A, B, C]\<close> and \<open>[D, E]\<close> the result is
  \<open>[A, D, B, E, C]\<close>.
\<close>

theorem round_robin_list_correct:
  "round_robin_list xss = Some (interleave_spec xss)
   \<and> map_option (\<lambda>out. map (\<lambda>i. from_source i out) [0..<length xss]) (round_robin_list (tagged xss))
       = Some xss
   \<and> round_robin_list [[''A'', ''B'', ''C''], [''D'', ''E'']] = Some [''A'', ''D'', ''B'', ''E'', ''C'']"
proof (intro conjI)
  show "round_robin_list xss = Some (interleave_spec xss)"
    by (rule round_robin_list_interleave)
  show "map_option (\<lambda>out. map (\<lambda>i. from_source i out) [0..<length xss]) (round_robin_list (tagged xss))
       = Some xss"
    by (simp add: round_robin_list_interleave sources_interleave_tagged)
  show "round_robin_list [[''A'', ''B'', ''C''], [''D'', ''E'']] = Some [''A'', ''D'', ''B'', ''E'', ''C'']"
    by code_simp
qed

lemma round_robin_list_docstring: "round_robin_list [''ABC'', ''D'', ''EF''] = Some ''ADEBFC''"
  by code_simp



section \<open>The loops over pages and inputs\<close>

lemma degrees_mod_90: "degrees r mod 90 = 0"
  by (cases r) simp_all

lemma page_loop_find:
  "page_loop ia pr added objs =
     (case find (\<lambda>x. \<not> in_bounds ia x) pr of
        None \<Rightarrow> Inr (added @ map (\<lambda>x. getPage (pdf ia) (fst x - 1)) pr, rotate_all ia pr objs)
      | Some x \<Rightarrow> Inl (page_not_found (fst x) (name ia)))"
proof (induction pr arbitrary: added objs)
  case Nil
  show ?case by simp
next
  case (Cons x pr)
  obtain pageno r where x: "x = (pageno, r)" by (cases x)
  show ?case
  proof (cases "in_bounds ia x")
    case True
    then show ?thesis
      unfolding x using Cons.IH
      by (simp add: in_bounds_def rotateClockwise_def degrees_mod_90 split: option.splits)
  next
    case False
    then show ?thesis
      unfolding x by (auto simp: in_bounds_def)
  qed
qed

lemma rotated_object:
  "rotate_all ia pr objs (getPage (pdf ia) (pageno - 1))
     = objs (getPage (pdf ia) (pageno - 1)) + total_rotation pr pageno"
proof (induction pr arbitrary: objs)
  case Nil
  show ?case by (simp add: total_rotation_def)
next
  case (Cons x pr)
  show ?case
    unfolding rotate_all.simps Cons.IH
    by (simp add: total_rotation_def getPage_def)
qed

lemma written_rotated:
  "map (written (rotate_all ia pr unrotated)) (map (\<lambda>x. getPage (pdf ia) (fst x - 1)) qs)
     = map (\<lambda>x. Page (pdf_file (pdf ia)) (fst x - 1) (total_rotation pr (fst x))) qs"
proof -
  have "written (rotate_all ia pr unrotated) (getPage (pdf ia) (pageno - 1))
          = Page (pdf_file (pdf ia)) (pageno - 1) (total_rotation pr pageno)" for pageno
    unfolding written_def rotated_object by (simp add: getPage_def unrotated_def)
  then show ?thesis by simp
qed

lemma add_pages_find:
  "add_pages ia pr acc =
     (case find (\<lambda>x. \<not> in_bounds ia x) pr of
        None \<Rightarrow> Inr (acc @ emitted ia pr)
      | Some x \<Rightarrow> Inl (page_not_found (fst x) (name ia)))"
proof (cases "find (\<lambda>x. \<not> in_bounds ia x) pr")
  case None
  then have "add_pages ia pr acc
               = Inr (acc @ map (written (rotate_all ia pr unrotated))
                                (map (\<lambda>x. getPage (pdf ia) (fst x - 1)) pr))"
    by (simp add: add_pages_def page_loop_find)
  with None show ?thesis
    unfolding written_rotated by (simp add: emitted_def)
next
  case (Some x)
  then show ?thesis
    by (simp add: add_pages_def page_loop_find)
qed

lemma add_pages_in_bounds:
  assumes "\<forall>x\<in>set pr. in_bounds ia x"
  shows "add_pages ia pr acc = Inr (acc @ emitted ia pr)"
proof -
  from assms have "find (\<lambda>x. \<not> in_bounds ia x) pr = None"
    by (simp add: find_None_iff)
  then show ?thesis by (simp add: add_pages_find)
qed

lemma total_rotation_unrotated:
  assumes "\<forall>x\<in>set pr. snd x = ROTATION_NONE"
  shows "total_rotation pr pageno = 0"
  using assms unfolding total_rotation_def by (induction pr) simp_all

lemma emitted_unrotated:
  assumes "\<forall>x\<in>set pr. snd x = ROTATION_NONE"
  shows "emitted ia pr = map (page_of ia) pr"
  using assms by (simp add: emitted_def page_of_def total_rotation_unrotated)



lemma add_pages_out_of_bounds:
  assumes "\<not> (\<forall>x\<in>set pr. in_bounds ia x)"
  shows "\<exists>x\<in>set pr. \<not> in_bounds ia x \<and> add_pages ia pr acc = Inl (page_not_found (fst x) (name ia))"
proof -
  from assms obtain x where f: "find (\<lambda>x. \<not> in_bounds ia x) pr = Some x"
    by (cases "find (\<lambda>x. \<not> in_bounds ia x) pr") (auto simp: find_None_iff)
  then have "x \<in> set pr" and "\<not> in_bounds ia x"
    by (auto simp: find_Some_iff)
  with f show ?thesis by (auto simp: add_pages_find)
qed

lemma all_pages_in_bounds: "\<forall>x\<in>set (all_pages ia). in_bounds ia x"
  by (auto simp: all_pages_def in_bounds_def)

lemma pagerange_exclusive_in_bounds: "\<forall>x\<in>set (pagerange True ia). in_bounds ia x"
  by (auto simp: pagerange_def in_bounds_def)

lemma select_files_in_bounds:
  assumes "\<forall>ia\<in>set fs. \<forall>x\<in>set (pagerange inverse' ia). in_bounds ia x"
  shows "select_files inverse' fs out
           = Inr (out @ concat (map (\<lambda>ia. emitted ia (pagerange inverse' ia)) fs))"
  using assms
proof (induction fs arbitrary: out)
  case Nil
  show ?case by simp
next
  case (Cons ia fs)
  then show ?case by (simp add: add_pages_in_bounds)
qed

lemma zip_files_in_bounds:
  assumes "\<forall>ia\<in>set fs. \<forall>x\<in>set (pagerange False ia). in_bounds ia x"
  shows "zip_files fs filestozip
           = Inr (filestozip @ map (\<lambda>ia. emitted ia (pagerange False ia)) fs)"
  using assms
proof (induction fs arbitrary: filestozip)
  case Nil
  show ?case by simp
next
  case (Cons ia fs)
  then show ?case by (simp add: add_pages_in_bounds)
qed

lemma select_run:
  assumes "inputs_given E args fs" and "check_output_file E (last args) = None"
  shows "select E args inverse' w =
           (case select_files inverse' fs [] of
              Inl e \<Rightarrow> (Some (CommandError_of e), w)
            | Inr plan \<Rightarrow> (None, w @ [(output_path E (last args), plan)]))"
  using assms by (simp add: select_def inputs_given_def write_pdf_def split: sum.splits)

lemma zip_pdfs_run:
  assumes "inputs_given E args fs"
  shows "zip_pdfs E args w =
           (case zip_files fs [] of
              Inl e \<Rightarrow> Some (Some (CommandError_of e), w)
            | Inr filestozip \<Rightarrow>
                Some (None, w @ [(output_path E (last args), interleave_spec filestozip)]))"
  using assms
  by (simp add: zip_pdfs_def inputs_given_def write_pdf_def round_robin_list_interleave
      split: sum.splits)

section \<open>The exclusive path: \<open>delete\<close>\<close>

lemma pagerange_exclusive: "pagerange True ia = map (\<lambda>p. (p, ROTATION_NONE)) (kept_numbers ia)"
  by (simp add: pagerange_def kept_numbers_def)

lemma pages_exclusive: "emitted ia (pagerange True ia) = kept_pages ia"
  by (simp add: pagerange_exclusive kept_pages_def emitted_unrotated page_of_def comp_def)

lemma select_files_exclusive:
  "select_files True fs out = Inr (out @ concat (map kept_pages fs))"
  using select_files_in_bounds [of fs True out] pagerange_exclusive_in_bounds
  by (simp add: pages_exclusive)

lemma delete_run:
  assumes "inputs_given E args fs" and "check_output_file E (last args) = None"
  shows "delete E args w = (None, w @ [(output_path E (last args), concat (map kept_pages fs))])"
  using select_run [OF assms, of True w] by (simp add: delete_def select_files_exclusive)

lemma sorted_kept_numbers: "sorted_wrt (<) (kept_numbers ia)"
  unfolding kept_numbers_def by (rule sorted_wrt_filter) simp

lemma set_kept_numbers: "set (kept_numbers ia) = {1..getNumPages (pdf ia)} - fst ` set (pages ia)"
  by (auto simp: kept_numbers_def)

lemmas example_defs = example_env_def example_file_def inputs_given_def output_path_def isabs_def
  os_sep_def upto_rec1 add_pages_find in_bounds_def emitted_def total_rotation_def

lemma delete_example:
  "delete (example_env [example_file ''a.pdf'' 3 [(2, ROTATION_NONE)]] 3) [''a.pdf'', ''2'', ''out.pdf''] []
     = (None, [(''out/out.pdf'', [Page ''a.pdf'' 0 0, Page ''a.pdf'' 2 0])])"
  by (simp add: delete_def select_def example_defs pagerange_def getPage_def write_pdf_def)

text \<open>
  C3 as stated fails at a range that names a number which is not a page of the document:
  deleting page 10 of a 3-page file keeps pages 1, 2 and 3, and the kept numbers together
  with the named number 10 are more than all pages.
\<close>

theorem delete_union_counterexample:
  "delete (example_env [example_file ''a.pdf'' 3 [(10, ROTATION_NONE)]] 3) [''a.pdf'', ''10'', ''out.pdf''] []
     = (None, [(''out/out.pdf'', [Page ''a.pdf'' 0 0, Page ''a.pdf'' 1 0, Page ''a.pdf'' 2 0])])
   \<and> kept_numbers (example_file ''a.pdf'' 3 [(10, ROTATION_NONE)]) = [1, 2, 3]
   \<and> fst ` set (pages (example_file ''a.pdf'' 3 [(10, ROTATION_NONE)])) = {10}
   \<and> set (kept_numbers (example_file ''a.pdf'' 3 [(10, ROTATION_NONE)]))
         \<union> fst ` set (pages (example_file ''a.pdf'' 3 [(10, ROTATION_NONE)]))
       \<noteq> {1..getNumPages (pdf (example_file ''a.pdf'' 3 [(10, ROTATION_NONE)]))}"
proof -
  let ?ia = "example_file ''a.pdf'' 3 [(10, ROTATION_NONE)]"
  have run: "delete (example_env [?ia] 3) [''a.pdf'', ''10'', ''out.pdf''] []
     = (None, [(''out/out.pdf'', [Page ''a.pdf'' 0 0, Page ''a.pdf'' 1 0, Page ''a.pdf'' 2 0])])"
    by (simp add: delete_def select_def example_defs pagerange_def write_pdf_def)
  have kept: "kept_numbers ?ia = [1, 2, 3]"
    by (simp add: kept_numbers_def example_file_def upto_rec1)
  have named: "fst ` set (pages ?ia) = {10}"
    by (simp add: example_file_def)
  have "(10::int) \<in> set (kept_numbers ?ia) \<union> fst ` set (pages ?ia)"
    unfolding named by simp
  moreover have "(10::int) \<notin> {1..getNumPages (pdf ?ia)}"
    by (simp add: example_file_def)
  ultimately have "set (kept_numbers ?ia) \<union> fst ` set (pages ?ia) \<noteq> {1..getNumPages (pdf ?ia)}"
    by blast
  with run kept named show ?thesis by blast
qed

text \<open>
  C3, amended. For every input and every parsed range, \<open>delete\<close> emits exactly the
  ascending complement: the page numbers from 1 to the page count that the range does not
  name, in ascending order, each page with rotation 0, whatever rotation the range gave. The
  kept numbers and the named numbers that are pages of the document make up all pages, the
  kept and the named numbers have nothing in common, and when the range names pages of the
  document only, kept and named numbers together are exactly all pages. Deleting page 2 of a
  3-page file leaves pages 1 and 3 (a page carries its index from 0).
\<close>

theorem delete_emits_complement:
  "(inputs_given E args fs \<and> check_output_file E (last args) = None \<longrightarrow>
      delete E args w = (None, w @ [(output_path E (last args), concat (map kept_pages fs))]))
   \<and> kept_pages ia = map (\<lambda>p. Page (pdf_file (pdf ia)) (p - 1) 0) (kept_numbers ia)
   \<and> kept_numbers ia = filter (\<lambda>p. p \<notin> fst ` set (pages ia)) [1..getNumPages (pdf ia)]
   \<and> sorted_wrt (<) (kept_numbers ia)
   \<and> set (kept_numbers ia) \<union> (fst ` set (pages ia) \<inter> {1..getNumPages (pdf ia)})
       = {1..getNumPages (pdf ia)}
   \<and> (fst ` set (pages ia) \<subseteq> {1..getNumPages (pdf ia)} \<longrightarrow>
        set (kept_numbers ia) \<union> fst ` set (pages ia) = {1..getNumPages (pdf ia)})
   \<and> set (kept_numbers ia) \<inter> fst ` set (pages ia) = {}
   \<and> delete (example_env [example_file ''a.pdf'' 3 [(2, ROTATION_NONE)]] 3) [''a.pdf'', ''2'', ''out.pdf''] []
       = (None, [(''out/out.pdf'', [Page ''a.pdf'' 0 0, Page ''a.pdf'' 2 0])])"
proof (intro conjI impI)
  assume "inputs_given E args fs \<and> check_output_file E (last args) = None"
  then show "delete E args w = (None, w @ [(output_path E (last args), concat (map kept_pages fs))])"
    by (simp add: delete_run)
next
  show "kept_pages ia = map (\<lambda>p. Page (pdf_file (pdf ia)) (p - 1) 0) (kept_numbers ia)"
    by (simp add: kept_pages_def)
  show "kept_numbers ia = filter (\<lambda>p. p \<notin> fst ` set (pages ia)) [1..getNumPages (pdf ia)]"
    by (simp add: kept_numbers_def)
  show "sorted_wrt (<) (kept_numbers ia)"
    by (rule sorted_kept_numbers)
  show "set (kept_numbers ia) \<union> (fst ` set (pages ia) \<inter> {1..getNumPages (pdf ia)})
       = {1..getNumPages (pdf ia)}"
    unfolding set_kept_numbers by blast
  show "set (kept_numbers ia) \<inter> fst ` set (pages ia) = {}"
    unfolding set_kept_numbers by blast
  show "delete (example_env [example_file ''a.pdf'' 3 [(2, ROTATION_NONE)]] 3) [''a.pdf'', ''2'', ''out.pdf''] []
       = (None, [(''out/out.pdf'', [Page ''a.pdf'' 0 0, Page ''a.pdf'' 2 0])])"
    by (rule delete_example)
next
  assume "fst ` set (pages ia) \<subseteq> {1..getNumPages (pdf ia)}"
  then show "set (kept_numbers ia) \<union> fst ` set (pages ia) = {1..getNumPages (pdf ia)}"
    unfolding set_kept_numbers by blast
qed

theorem delete_emits_complement_witness:
  "inputs_given (example_env [example_file ''b.pdf'' 4 [(3, ROTATION_90), (1, ROTATION_NONE)]] 4) [''b.pdf'', ''3R'', ''1'', ''/tmp/o.pdf''] 
      [example_file ''b.pdf'' 4 [(3, ROTATION_90), (1, ROTATION_NONE)]]
   \<and> check_output_file (example_env [example_file ''b.pdf'' 4 [(3, ROTATION_90), (1, ROTATION_NONE)]] 4) ''/tmp/o.pdf'' = None
   \<and> fst ` set (pages (example_file ''b.pdf'' 4 [(3, ROTATION_90), (1, ROTATION_NONE)])) \<subseteq> {1..4}
   \<and> delete (example_env [example_file ''b.pdf'' 4 [(3, ROTATION_90), (1, ROTATION_NONE)]] 4) [''b.pdf'', ''3R'', ''1'', ''/tmp/o.pdf''] []
       = (None, [(''/tmp/o.pdf'', [Page ''b.pdf'' 1 0, Page ''b.pdf'' 3 0])])
   \<and> set (kept_numbers (example_file ''b.pdf'' 4 [(3, ROTATION_90), (1, ROTATION_NONE)])) \<union> {3, 1} = {1..4}"
  using delete_emits_complement [of "example_env [example_file ''b.pdf'' 4 [(3, ROTATION_90), (1, ROTATION_NONE)]] 4"
      "[''b.pdf'', ''3R'', ''1'', ''/tmp/o.pdf'']" "[example_file ''b.pdf'' 4 [(3, ROTATION_90), (1, ROTATION_NONE)]]" "[]"
      "example_file ''b.pdf'' 4 [(3, ROTATION_90), (1, ROTATION_NONE)]"]
  by (simp add: example_defs kept_pages_def kept_numbers_def)

lemma without_out_of_range_simps:
  "pdf (without_out_of_range ia) = pdf ia"
  "name (without_out_of_range ia) = name ia"
  "pages (without_out_of_range ia) = filter (in_bounds ia) (pages ia)"
  by (simp_all add: without_out_of_range_def)

lemma kept_numbers_without_out_of_range: "kept_numbers (without_out_of_range ia) = kept_numbers ia"
proof -
  have "p \<notin> fst ` set (filter (in_bounds ia) (pages ia)) \<longleftrightarrow> p \<notin> fst ` set (pages ia)"
    if "p \<in> set [1..getNumPages (pdf ia)]" for p
    using that by (force simp: in_bounds_def)
  then show ?thesis
    unfolding kept_numbers_def without_out_of_range_simps by (intro filter_cong refl)
qed

lemma kept_pages_without_out_of_range: "kept_pages (without_out_of_range ia) = kept_pages ia"
  by (simp add: kept_pages_def kept_numbers_without_out_of_range without_out_of_range_simps)

lemma delete_out_of_range_example:
  "delete (example_env [example_file ''a.pdf'' 3 [(10, ROTATION_NONE)]] 3) [''a.pdf'', ''10'', ''out.pdf''] []
     = (None, [(''out/out.pdf'', [Page ''a.pdf'' 0 0, Page ''a.pdf'' 1 0, Page ''a.pdf'' 2 0])])"
  by (simp add: delete_def select_def example_defs pagerange_def getPage_def write_pdf_def)

text \<open>
  C4. On the exclusive path a page number that is not a page of the document is ignored and
  raises nothing: for every list of inputs the loop of \<open>delete\<close> ends without an
  exception, with the same pages as for the inputs without their out-of-range numbers, and a
  call that gives its inputs and passes the check of the output file writes them and raises
  nothing. Deleting page 10 of a 3-page file leaves all 3 pages.
\<close>

theorem delete_ignores_out_of_range:
  "select_files True fs out = Inr (out @ concat (map kept_pages fs))
   \<and> select_files True (map without_out_of_range fs) out = select_files True fs out
   \<and> kept_pages (without_out_of_range ia) = kept_pages ia
   \<and> (inputs_given E args fs \<and> check_output_file E (last args) = None \<longrightarrow>
        delete E args w = (None, w @ [(output_path E (last args), concat (map kept_pages fs))])
        \<and> concat (map kept_pages fs) = concat (map kept_pages (map without_out_of_range fs)))
   \<and> delete (example_env [example_file ''a.pdf'' 3 [(10, ROTATION_NONE)]] 3) [''a.pdf'', ''10'', ''out.pdf''] []
       = (None, [(''out/out.pdf'', [Page ''a.pdf'' 0 0, Page ''a.pdf'' 1 0, Page ''a.pdf'' 2 0])])"
proof -
  have same: "map kept_pages (map without_out_of_range fs) = map kept_pages fs"
    by (simp add: kept_pages_without_out_of_range)
  have loop: "select_files True fs out = Inr (out @ concat (map kept_pages fs))"
    by (rule select_files_exclusive)
  have loop': "select_files True (map without_out_of_range fs) out = select_files True fs out"
    unfolding select_files_exclusive same ..
  have call: "delete E args w = (None, w @ [(output_path E (last args), concat (map kept_pages fs))])"
    if "inputs_given E args fs \<and> check_output_file E (last args) = None"
    using that by (simp add: delete_run)
  show ?thesis
  proof (intro conjI impI)
    show "select_files True fs out = Inr (out @ concat (map kept_pages fs))" by (rule loop)
    show "select_files True (map without_out_of_range fs) out = select_files True fs out" by (rule loop')
    show "kept_pages (without_out_of_range ia) = kept_pages ia" by (rule kept_pages_without_out_of_range)
    show "concat (map kept_pages fs) = concat (map kept_pages (map without_out_of_range fs))"
      unfolding same ..
    show "delete (example_env [example_file ''a.pdf'' 3 [(10, ROTATION_NONE)]] 3) [''a.pdf'', ''10'', ''out.pdf''] []
       = (None, [(''out/out.pdf'', [Page ''a.pdf'' 0 0, Page ''a.pdf'' 1 0, Page ''a.pdf'' 2 0])])"
      by (rule delete_out_of_range_example)
  next
    assume "inputs_given E args fs \<and> check_output_file E (last args) = None"
    then show "delete E args w = (None, w @ [(output_path E (last args), concat (map kept_pages fs))])"
      by (rule call)
  qed
qed

theorem delete_ignores_out_of_range_witness:
  "inputs_given (example_env [example_file ''b.pdf'' 2 [(0, ROTATION_NONE), (2, ROTATION_NONE), (7, ROTATION_NONE)]] 2)
      [''b.pdf'', ''0'', ''2'', ''7'', ''o.pdf''] [example_file ''b.pdf'' 2 [(0, ROTATION_NONE), (2, ROTATION_NONE), (7, ROTATION_NONE)]]
   \<and> check_output_file (example_env [example_file ''b.pdf'' 2 [(0, ROTATION_NONE), (2, ROTATION_NONE), (7, ROTATION_NONE)]] 2) ''o.pdf'' = None
   \<and> delete (example_env [example_file ''b.pdf'' 2 [(0, ROTATION_NONE), (2, ROTATION_NONE), (7, ROTATION_NONE)]] 2)
        [''b.pdf'', ''0'', ''2'', ''7'', ''o.pdf''] []
       = (None, [(''out/o.pdf'', [Page ''b.pdf'' 0 0])])"
proof -
  let ?ia = "example_file ''b.pdf'' 2 [(0, ROTATION_NONE), (2, ROTATION_NONE), (7, ROTATION_NONE)]"
  let ?E = "example_env [?ia] 2"
  let ?args = "[''b.pdf'', ''0'', ''2'', ''7'', ''o.pdf'']"
  have given: "inputs_given ?E ?args [?ia] \<and> check_output_file ?E (last ?args) = None"
    by (simp add: example_defs)
  with delete_ignores_out_of_range [of "[?ia]" "[]" ?ia ?E ?args "[]"]
  have "delete ?E ?args [] = (None, [] @ [(output_path ?E (last ?args), concat (map kept_pages [?ia]))])"
    by blast
  moreover have "kept_pages ?ia = [Page ''b.pdf'' 0 0]"
    by (simp add: kept_pages_def kept_numbers_def example_file_def upto_rec1)
  moreover have "output_path ?E (last ?args) = ''out/o.pdf''"
    by (simp add: example_defs)
  ultimately show ?thesis using given by simp
qed

lemma pagerange_inclusive_empty:
  assumes "pages ia = []"
  shows "emitted ia (pagerange False ia) = whole_document ia"
  using assms
  by (simp add: pagerange_def all_pages_def whole_document_def emitted_unrotated page_of_def comp_def)

lemma kept_pages_empty:
  assumes "pages ia = []"
  shows "kept_pages ia = whole_document ia"
  using assms by (simp add: kept_pages_def kept_numbers_def whole_document_def)

text \<open>
  C10. For every input, \<open>delete\<close> with an empty range excludes nothing: the pages it emits
  are all pages from 1 to the page count in ascending order, each with rotation 0, the page
  sequence of the document.
\<close>

theorem delete_empty_range_keeps_all:
  "(pages ia = [] \<longrightarrow>
      pagerange True ia = map (\<lambda>p. (p, ROTATION_NONE)) [1..getNumPages (pdf ia)]
      \<and> select_files True [ia] [] = Inr (whole_document ia))
   \<and> (inputs_given E args fs \<and> check_output_file E (last args) = None
       \<and> (\<forall>ia\<in>set fs. pages ia = []) \<longrightarrow>
        delete E args w = (None, w @ [(output_path E (last args), concat (map whole_document fs))]))
   \<and> whole_document ia = map (\<lambda>p. Page (pdf_file (pdf ia)) (p - 1) 0) [1..getNumPages (pdf ia)]"
proof (intro conjI impI)
  assume e: "pages ia = []"
  then show "pagerange True ia = map (\<lambda>p. (p, ROTATION_NONE)) [1..getNumPages (pdf ia)]"
    by (simp add: pagerange_def)
  from e show "select_files True [ia] [] = Inr (whole_document ia)"
    by (simp add: select_files_exclusive kept_pages_empty del: select_files.simps)
next
  assume a: "inputs_given E args fs \<and> check_output_file E (last args) = None
       \<and> (\<forall>ia\<in>set fs. pages ia = [])"
  then have same: "map kept_pages fs = map whole_document fs"
    by (simp add: kept_pages_empty)
  from a have "delete E args w = (None, w @ [(output_path E (last args), concat (map kept_pages fs))])"
    by (simp add: delete_run)
  then show "delete E args w = (None, w @ [(output_path E (last args), concat (map whole_document fs))])"
    unfolding same .
next
  show "whole_document ia = map (\<lambda>p. Page (pdf_file (pdf ia)) (p - 1) 0) [1..getNumPages (pdf ia)]"
    by (simp add: whole_document_def)
qed

theorem delete_empty_range_keeps_all_witness:
  "pages (example_file ''a.pdf'' 3 []) = []
   \<and> inputs_given (example_env [example_file ''a.pdf'' 3 []] 3) [''a.pdf'', ''out.pdf'']
        [example_file ''a.pdf'' 3 []]
   \<and> check_output_file (example_env [example_file ''a.pdf'' 3 []] 3) ''out.pdf'' = None
   \<and> delete (example_env [example_file ''a.pdf'' 3 []] 3) [''a.pdf'', ''out.pdf''] []
       = (None, [(''out/out.pdf'', [Page ''a.pdf'' 0 0, Page ''a.pdf'' 1 0, Page ''a.pdf'' 2 0])])"
proof -
  let ?ia = "example_file ''a.pdf'' 3 []"
  let ?E = "example_env [?ia] 3"
  let ?args = "[''a.pdf'', ''out.pdf'']"
  have empty: "pages ?ia = []"
    by (simp add: example_file_def)
  have given: "inputs_given ?E ?args [?ia] \<and> check_output_file ?E (last ?args) = None"
    by (simp add: example_defs)
  from delete_empty_range_keeps_all [of ?ia ?E ?args "[?ia]" "[]"] empty given
  have "delete ?E ?args [] = (None, [] @ [(output_path ?E (last ?args), concat (map whole_document [?ia]))])"
    by simp
  moreover have "whole_document ?ia = [Page ''a.pdf'' 0 0, Page ''a.pdf'' 1 0, Page ''a.pdf'' 2 0]"
    by (simp add: whole_document_def example_file_def upto_rec1)
  moreover have "output_path ?E (last ?args) = ''out/out.pdf''"
    by (simp add: example_defs)
  ultimately show ?thesis using empty given by simp
qed

section \<open>The inclusive path: \<open>select\<close> and \<open>zip_pdfs\<close>\<close>


lemma pagerange_inclusive_in_bounds:
  "(\<forall>x\<in>set (pagerange False ia). in_bounds ia x) \<longleftrightarrow> (\<forall>x\<in>set (pages ia). in_bounds ia x)"
  using all_pages_in_bounds [of ia] by (cases "pages ia = []") (simp_all add: pagerange_def)

lemma select_inclusive_run:
  assumes "inputs_given E args fs" and "check_output_file E (last args) = None"
    and "\<forall>ia\<in>set fs. \<forall>x\<in>set (pages ia). in_bounds ia x"
  shows "select E args False w
           = (None, w @ [(output_path E (last args),
                          concat (map (\<lambda>ia. emitted ia (pagerange False ia)) fs))])"
proof -
  from assms(3) have "\<forall>ia\<in>set fs. \<forall>x\<in>set (pagerange False ia). in_bounds ia x"
    by (simp add: pagerange_inclusive_in_bounds)
  then have "select_files False fs []
               = Inr ([] @ concat (map (\<lambda>ia. emitted ia (pagerange False ia)) fs))"
    by (rule select_files_in_bounds)
  with select_run [OF assms(1,2), of False w] show ?thesis by simp
qed

lemma zip_pdfs_inclusive_run:
  assumes "inputs_given E args fs"
    and "\<forall>ia\<in>set fs. \<forall>x\<in>set (pages ia). in_bounds ia x"
  shows "zip_pdfs E args w
           = Some (None, w @ [(output_path E (last args),
                  interleave_spec (map (\<lambda>ia. emitted ia (pagerange False ia)) fs))])"
proof -
  from assms(2) have "\<forall>ia\<in>set fs. \<forall>x\<in>set (pagerange False ia). in_bounds ia x"
    by (simp add: pagerange_inclusive_in_bounds)
  then have "zip_files fs [] = Inr ([] @ map (\<lambda>ia. emitted ia (pagerange False ia)) fs)"
    by (rule zip_files_in_bounds)
  with zip_pdfs_run [OF assms(1), of w] show ?thesis by simp
qed

lemma select_whole_example:
  "select (example_env [example_file ''a.pdf'' 3 []] 3) [''a.pdf'', ''out.pdf''] False []
     = (None, [(''out/out.pdf'', [Page ''a.pdf'' 0 0, Page ''a.pdf'' 1 0, Page ''a.pdf'' 2 0])])"
  by (simp add: select_def example_defs pagerange_def all_pages_def getPage_def
      write_pdf_def)

text \<open>
  C6. For every input, an empty range on the inclusive path stands for all pages from 1 to
  the page count in ascending order, each with rotation 0: this is the range that the loop
  of \<open>select\<close> and of \<open>zip_pdfs\<close> goes through, and the pages it adds. A \<open>select\<close> whose
  inputs all have an empty range writes their whole documents one after the other, a
  \<open>zip_pdfs\<close> writes them interleaved. \<open>select\<close> on a single 3-page file with no range
  writes pages 1, 2, 3 in this order (a page carries its index from 0).
\<close>

theorem empty_range_selects_all_pages:
  "(pages ia = [] \<longrightarrow>
      pagerange False ia = map (\<lambda>p. (p, ROTATION_NONE)) [1..getNumPages (pdf ia)]
      \<and> add_pages ia (pagerange False ia) acc = Inr (acc @ whole_document ia))
   \<and> (inputs_given E args fs \<and> check_output_file E (last args) = None
       \<and> (\<forall>ia\<in>set fs. pages ia = []) \<longrightarrow>
        select E args False w
          = (None, w @ [(output_path E (last args), concat (map whole_document fs))]))
   \<and> (inputs_given E args fs \<and> (\<forall>ia\<in>set fs. pages ia = []) \<longrightarrow>
        zip_pdfs E args w
          = Some (None, w @ [(output_path E (last args), interleave_spec (map whole_document fs))]))
   \<and> whole_document ia = map (\<lambda>p. Page (pdf_file (pdf ia)) (p - 1) 0) [1..getNumPages (pdf ia)]
   \<and> select (example_env [example_file ''a.pdf'' 3 []] 3) [''a.pdf'', ''out.pdf''] False []
       = (None, [(''out/out.pdf'', [Page ''a.pdf'' 0 0, Page ''a.pdf'' 1 0, Page ''a.pdf'' 2 0])])"
proof (intro conjI impI)
  assume e: "pages ia = []"
  then show "pagerange False ia = map (\<lambda>p. (p, ROTATION_NONE)) [1..getNumPages (pdf ia)]"
    by (simp add: pagerange_def all_pages_def)
  from e have "\<forall>x\<in>set (pagerange False ia). in_bounds ia x"
    by (simp add: pagerange_inclusive_in_bounds)
  then show "add_pages ia (pagerange False ia) acc = Inr (acc @ whole_document ia)"
    using e by (simp add: add_pages_in_bounds pagerange_inclusive_empty)
next
  assume a: "inputs_given E args fs \<and> check_output_file E (last args) = None
       \<and> (\<forall>ia\<in>set fs. pages ia = [])"
  then have same: "map (\<lambda>ia. emitted ia (pagerange False ia)) fs = map whole_document fs"
    by (simp add: pagerange_inclusive_empty)
  from a have "\<forall>ia\<in>set fs. \<forall>x\<in>set (pages ia). in_bounds ia x" by simp
  with a have "select E args False w
           = (None, w @ [(output_path E (last args),
                          concat (map (\<lambda>ia. emitted ia (pagerange False ia)) fs))])"
    by (intro select_inclusive_run) simp_all
  then show "select E args False w
          = (None, w @ [(output_path E (last args), concat (map whole_document fs))])"
    unfolding same .
next
  assume a: "inputs_given E args fs \<and> (\<forall>ia\<in>set fs. pages ia = [])"
  then have same: "map (\<lambda>ia. emitted ia (pagerange False ia)) fs = map whole_document fs"
    by (simp add: pagerange_inclusive_empty)
  from a have "\<forall>ia\<in>set fs. \<forall>x\<in>set (pages ia). in_bounds ia x" by simp
  with a have "zip_pdfs E args w
           = Some (None, w @ [(output_path E (last args),
                  interleave_spec (map (\<lambda>ia. emitted ia (pagerange False ia)) fs))])"
    by (intro zip_pdfs_inclusive_run) simp_all
  then show "zip_pdfs E args w
          = Some (None, w @ [(output_path E (last args), interleave_spec (map whole_document fs))])"
    unfolding same .
next
  show "whole_document ia = map (\<lambda>p. Page (pdf_file (pdf ia)) (p - 1) 0) [1..getNumPages (pdf ia)]"
    by (simp add: whole_document_def)
  show "select (example_env [example_file ''a.pdf'' 3 []] 3) [''a.pdf'', ''out.pdf''] False []
       = (None, [(''out/out.pdf'', [Page ''a.pdf'' 0 0, Page ''a.pdf'' 1 0, Page ''a.pdf'' 2 0])])"
    by (rule select_whole_example)
qed

theorem empty_range_selects_all_pages_witness:
  "pages (example_file ''a.pdf'' 2 []) = [] \<and> pages (example_file ''b.pdf'' 1 []) = []
   \<and> inputs_given (example_env [example_file ''a.pdf'' 2 [], example_file ''b.pdf'' 1 []] 2)
        [''a.pdf'', ''b.pdf'', ''/o.pdf''] [example_file ''a.pdf'' 2 [], example_file ''b.pdf'' 1 []]
   \<and> check_output_file (example_env [example_file ''a.pdf'' 2 [], example_file ''b.pdf'' 1 []] 2) ''/o.pdf''
        = None
   \<and> add_pages (example_file ''a.pdf'' 2 []) (pagerange False (example_file ''a.pdf'' 2 [])) []
        = Inr [Page ''a.pdf'' 0 0, Page ''a.pdf'' 1 0]
   \<and> select (example_env [example_file ''a.pdf'' 2 [], example_file ''b.pdf'' 1 []] 2)
        [''a.pdf'', ''b.pdf'', ''/o.pdf''] False []
       = (None, [(''/o.pdf'', [Page ''a.pdf'' 0 0, Page ''a.pdf'' 1 0, Page ''b.pdf'' 0 0])])
   \<and> zip_pdfs (example_env [example_file ''a.pdf'' 2 [], example_file ''b.pdf'' 1 []] 2)
        [''a.pdf'', ''b.pdf'', ''/o.pdf''] []
       = Some (None, [(''/o.pdf'', [Page ''a.pdf'' 0 0, Page ''b.pdf'' 0 0, Page ''a.pdf'' 1 0])])"
proof -
  let ?a = "example_file ''a.pdf'' 2 []" and ?b = "example_file ''b.pdf'' 1 []"
  let ?E = "example_env [?a, ?b] 2"
  let ?args = "[''a.pdf'', ''b.pdf'', ''/o.pdf'']"
  have empty: "pages ?a = []" "pages ?b = []"
    by (simp_all add: example_file_def)
  have given: "inputs_given ?E ?args [?a, ?b]" "check_output_file ?E (last ?args) = None"
    by (simp_all add: example_defs)
  have docs: "whole_document ?a = [Page ''a.pdf'' 0 0, Page ''a.pdf'' 1 0]"
    "whole_document ?b = [Page ''b.pdf'' 0 0]"
    by (simp_all add: whole_document_def example_file_def upto_rec1)
  have path: "output_path ?E ''/o.pdf'' = ''/o.pdf''"
    by (simp add: example_defs)
  have zipped: "interleave_spec [[Page ''a.pdf'' 0 0, Page ''a.pdf'' 1 0], [Page ''b.pdf'' 0 0]]
                  = [Page ''a.pdf'' 0 0, Page ''b.pdf'' 0 0, Page ''a.pdf'' 1 0]"
    by (simp add: interleave_spec.simps)
  note inst = empty_range_selects_all_pages [of ?a "[]" ?E ?args "[?a, ?b]" "[]"]
  from inst empty(1) have "add_pages ?a (pagerange False ?a) [] = Inr ([] @ whole_document ?a)"
    by blast
  moreover from inst empty given
  have "select ?E ?args False [] = (None, [] @ [(output_path ?E (last ?args), concat (map whole_document [?a, ?b]))])"
    by simp
  moreover from inst empty given
  have "zip_pdfs ?E ?args [] = Some (None, [] @ [(output_path ?E (last ?args), interleave_spec (map whole_document [?a, ?b]))])"
    by simp
  ultimately show ?thesis
    using empty given by (simp add: docs path zipped)
qed






lemma add_pages_succeeds_iff:
  "(\<exists>plan. add_pages ia pr acc = Inr plan) \<longleftrightarrow> (\<forall>x\<in>set pr. in_bounds ia x)"
proof (cases "\<forall>x\<in>set pr. in_bounds ia x")
  case True
  then show ?thesis by (simp add: add_pages_in_bounds)
next
  case False
  from add_pages_out_of_bounds [OF False, of acc] False show ?thesis by auto
qed

lemma add_pages_inclusive_out_of_bounds:
  assumes "\<not> (\<forall>x\<in>set (pages ia). in_bounds ia x)"
  shows "\<exists>x\<in>set (pages ia). \<not> in_bounds ia x
           \<and> (\<forall>acc. add_pages ia (pagerange False ia) acc = Inl (page_not_found (fst x) (name ia)))"
proof -
  from assms have range: "pagerange False ia = pages ia"
    by (cases "pages ia = []") (simp_all add: pagerange_def)
  from assms obtain y where y: "find (\<lambda>x. \<not> in_bounds ia x) (pages ia) = Some y"
    by (cases "find (\<lambda>x. \<not> in_bounds ia x) (pages ia)") (auto simp: find_None_iff)
  then have "y \<in> set (pages ia)" and "\<not> in_bounds ia y"
    by (auto simp: find_Some_iff)
  moreover from y have "add_pages ia (pagerange False ia) acc = Inl (page_not_found (fst y) (name ia))" for acc
    by (simp add: add_pages_find range)
  ultimately show ?thesis by blast
qed

lemma inclusive_out_of_bounds:
  assumes "\<not> (\<forall>ia\<in>set fs. \<forall>x\<in>set (pages ia). in_bounds ia x)"
  shows "\<exists>ia\<in>set fs. \<exists>x\<in>set (pages ia). \<not> in_bounds ia x
           \<and> select_files False fs out = Inl (page_not_found (fst x) (name ia))
           \<and> zip_files fs filestozip = Inl (page_not_found (fst x) (name ia))"
  using assms
proof (induction fs arbitrary: out filestozip)
  case Nil
  then show ?case by simp
next
  case (Cons ia fs)
  show ?case
  proof (cases "\<forall>x\<in>set (pages ia). in_bounds ia x")
    case True
    then have ok: "\<forall>x\<in>set (pagerange False ia). in_bounds ia x"
      by (simp add: pagerange_inclusive_in_bounds)
    from True Cons.prems have "\<not> (\<forall>ia\<in>set fs. \<forall>x\<in>set (pages ia). in_bounds ia x)" by simp
    from Cons.IH [OF this] ok show ?thesis
      by (simp add: add_pages_in_bounds)
  next
    case False
    from add_pages_inclusive_out_of_bounds [OF False] show ?thesis by auto
  qed
qed

lemma select_page_10_example:
  "select (example_env [example_file ''a.pdf'' 3 [(10, ROTATION_NONE)]] 3) [''a.pdf'', ''10'', ''out.pdf''] False []
     = (Some (CommandError_of (CommandError ''Page 10 not found in a.pdf.'')), [])"
  by (simp add: select_def example_defs pagerange_def page_not_found_def str_int_def
      str_nat.simps digit_char_def)

text \<open>
  C5. On the inclusive path the expansion of an input succeeds exactly when every page
  number of its range is a page of its document, and otherwise raises the error that names
  the first page number out of bounds and the file. When some input of a call has a page
  number out of bounds, \<open>select\<close> and \<open>zip_pdfs\<close> fail with that error for an offending
  input and page number, reported by the command, and write nothing. Requesting page 10 of
  a 3-page file fails with the message that page 10 is not found in the file.
\<close>

theorem inclusive_out_of_range_fails:
  "((\<exists>plan. add_pages ia (pagerange False ia) acc = Inr plan)
      \<longleftrightarrow> (\<forall>x\<in>set (pages ia). in_bounds ia x))
   \<and> (\<not> (\<forall>x\<in>set (pages ia). in_bounds ia x) \<longrightarrow>
        (\<exists>x\<in>set (pages ia). \<not> in_bounds ia x
           \<and> add_pages ia (pagerange False ia) acc = Inl (page_not_found (fst x) (name ia))))
   \<and> (inputs_given E args fs \<and> check_output_file E (last args) = None
       \<and> \<not> (\<forall>ia\<in>set fs. \<forall>x\<in>set (pages ia). in_bounds ia x) \<longrightarrow>
        (\<exists>ia\<in>set fs. \<exists>x\<in>set (pages ia). \<not> in_bounds ia x
           \<and> select E args False w
               = (Some (CommandError_of (page_not_found (fst x) (name ia))), w)))
   \<and> (inputs_given E args fs
       \<and> \<not> (\<forall>ia\<in>set fs. \<forall>x\<in>set (pages ia). in_bounds ia x) \<longrightarrow>
        (\<exists>ia\<in>set fs. \<exists>x\<in>set (pages ia). \<not> in_bounds ia x
           \<and> zip_pdfs E args w
               = Some (Some (CommandError_of (page_not_found (fst x) (name ia))), w)))
   \<and> in_bounds ia (pageno, r) = (1 \<le> pageno \<and> pageno \<le> getNumPages (pdf ia))
   \<and> page_not_found pageno f = CommandError (''Page '' @ str_int pageno @ '' not found in '' @ f @ ''.'')
   \<and> select (example_env [example_file ''a.pdf'' 3 [(10, ROTATION_NONE)]] 3) [''a.pdf'', ''10'', ''out.pdf''] False []
       = (Some (CommandError_of (CommandError ''Page 10 not found in a.pdf.'')), [])"
proof (intro conjI impI)
  show "(\<exists>plan. add_pages ia (pagerange False ia) acc = Inr plan)
      \<longleftrightarrow> (\<forall>x\<in>set (pages ia). in_bounds ia x)"
    by (simp only: add_pages_succeeds_iff pagerange_inclusive_in_bounds)
next
  assume "\<not> (\<forall>x\<in>set (pages ia). in_bounds ia x)"
  from add_pages_inclusive_out_of_bounds [OF this]
  show "\<exists>x\<in>set (pages ia). \<not> in_bounds ia x
           \<and> add_pages ia (pagerange False ia) acc = Inl (page_not_found (fst x) (name ia))"
    by blast
next
  assume a: "inputs_given E args fs \<and> check_output_file E (last args) = None
       \<and> \<not> (\<forall>ia\<in>set fs. \<forall>x\<in>set (pages ia). in_bounds ia x)"
  then have run: "select E args False w =
           (case select_files False fs [] of
              Inl e \<Rightarrow> (Some (CommandError_of e), w)
            | Inr plan \<Rightarrow> (None, w @ [(output_path E (last args), plan)]))"
    by (intro select_run) simp_all
  from a have "\<not> (\<forall>ia\<in>set fs. \<forall>x\<in>set (pages ia). in_bounds ia x)" by simp
  from inclusive_out_of_bounds [OF this, of "[]" "[]"]
  show "\<exists>ia\<in>set fs. \<exists>x\<in>set (pages ia). \<not> in_bounds ia x
           \<and> select E args False w
               = (Some (CommandError_of (page_not_found (fst x) (name ia))), w)"
    unfolding run by fastforce
next
  assume a: "inputs_given E args fs
       \<and> \<not> (\<forall>ia\<in>set fs. \<forall>x\<in>set (pages ia). in_bounds ia x)"
  then have run: "zip_pdfs E args w =
           (case zip_files fs [] of
              Inl e \<Rightarrow> Some (Some (CommandError_of e), w)
            | Inr filestozip \<Rightarrow>
                Some (None, w @ [(output_path E (last args), interleave_spec filestozip)]))"
    by (intro zip_pdfs_run) simp
  from a have "\<not> (\<forall>ia\<in>set fs. \<forall>x\<in>set (pages ia). in_bounds ia x)" by simp
  from inclusive_out_of_bounds [OF this, of "[]" "[]"]
  show "\<exists>ia\<in>set fs. \<exists>x\<in>set (pages ia). \<not> in_bounds ia x
           \<and> zip_pdfs E args w
               = Some (Some (CommandError_of (page_not_found (fst x) (name ia))), w)"
    unfolding run by fastforce
next
  show "in_bounds ia (pageno, r) = (1 \<le> pageno \<and> pageno \<le> getNumPages (pdf ia))"
    by (simp add: in_bounds_def)
  show "page_not_found pageno f = CommandError (''Page '' @ str_int pageno @ '' not found in '' @ f @ ''.'')"
    by (simp add: page_not_found_def)
  show "select (example_env [example_file ''a.pdf'' 3 [(10, ROTATION_NONE)]] 3) [''a.pdf'', ''10'', ''out.pdf''] False []
       = (Some (CommandError_of (CommandError ''Page 10 not found in a.pdf.'')), [])"
    by (rule select_page_10_example)
qed

theorem inclusive_out_of_range_fails_witness:
  "\<not> (\<forall>x\<in>set (pages (example_file ''b.pdf'' 3 [(2, ROTATION_NONE), (10, ROTATION_90)])).
         in_bounds (example_file ''b.pdf'' 3 [(2, ROTATION_NONE), (10, ROTATION_90)]) x)
   \<and> inputs_given (example_env [example_file ''b.pdf'' 3 [(2, ROTATION_NONE), (10, ROTATION_90)]] 3)
        [''b.pdf'', ''2'', ''10R'', ''o.pdf''] [example_file ''b.pdf'' 3 [(2, ROTATION_NONE), (10, ROTATION_90)]]
   \<and> check_output_file (example_env [example_file ''b.pdf'' 3 [(2, ROTATION_NONE), (10, ROTATION_90)]] 3) ''o.pdf'' = None
   \<and> add_pages (example_file ''b.pdf'' 3 [(2, ROTATION_NONE), (10, ROTATION_90)])
        (pagerange False (example_file ''b.pdf'' 3 [(2, ROTATION_NONE), (10, ROTATION_90)])) []
       = Inl (page_not_found 10 ''b.pdf'')
   \<and> select (example_env [example_file ''b.pdf'' 3 [(2, ROTATION_NONE), (10, ROTATION_90)]] 3)
        [''b.pdf'', ''2'', ''10R'', ''o.pdf''] False []
       = (Some (CommandError_of (page_not_found 10 ''b.pdf'')), [])
   \<and> zip_pdfs (example_env [example_file ''b.pdf'' 3 [(2, ROTATION_NONE), (10, ROTATION_90)]] 3)
        [''b.pdf'', ''2'', ''10R'', ''o.pdf''] []
       = Some (Some (CommandError_of (page_not_found 10 ''b.pdf'')), [])"
proof -
  let ?b = "example_file ''b.pdf'' 3 [(2, ROTATION_NONE), (10, ROTATION_90)]"
  let ?E = "example_env [?b] 3"
  let ?args = "[''b.pdf'', ''2'', ''10R'', ''o.pdf'']"
  have bad: "\<not> (\<forall>x\<in>set (pages ?b). in_bounds ?b x)"
    by (simp add: example_file_def in_bounds_def)
  then have bads: "\<not> (\<forall>ia\<in>set [?b]. \<forall>x\<in>set (pages ia). in_bounds ia x)"
    by simp
  have given: "inputs_given ?E ?args [?b]" "check_output_file ?E (last ?args) = None"
    by (simp_all add: example_defs)
  have only: "x = (10, ROTATION_90)" if "x \<in> set (pages ?b)" and "\<not> in_bounds ?b x" for x
    using that by (auto simp: example_file_def in_bounds_def)
  have nm: "name ?b = ''b.pdf''"
    by (simp add: example_file_def)
  note inst = inclusive_out_of_range_fails [of ?b "[]" ?E ?args "[?b]" "[]"]
  from inst bad have "\<exists>x\<in>set (pages ?b). \<not> in_bounds ?b x
      \<and> add_pages ?b (pagerange False ?b) [] = Inl (page_not_found (fst x) (name ?b))"
    by blast
  with only nm have one: "add_pages ?b (pagerange False ?b) [] = Inl (page_not_found 10 ''b.pdf'')"
    by fastforce
  from inst bads given have "\<exists>ia\<in>set [?b]. \<exists>x\<in>set (pages ia). \<not> in_bounds ia x
      \<and> select ?E ?args False [] = (Some (CommandError_of (page_not_found (fst x) (name ia))), [])"
    by blast
  with only nm have sel: "select ?E ?args False [] = (Some (CommandError_of (page_not_found 10 ''b.pdf'')), [])"
    by fastforce
  from inst bads given have "\<exists>ia\<in>set [?b]. \<exists>x\<in>set (pages ia). \<not> in_bounds ia x
      \<and> zip_pdfs ?E ?args [] = Some (Some (CommandError_of (page_not_found (fst x) (name ia))), [])"
    by blast
  with only nm have "zip_pdfs ?E ?args [] = Some (Some (CommandError_of (page_not_found 10 ''b.pdf'')), [])"
    by fastforce
  with one sel bad given show ?thesis
    by (simp only: simp_thms last.simps list.simps if_False if_True)
qed

section \<open>Failure leaves no output\<close>

lemma add_pages_fails_any_acc:
  assumes "add_pages ia pr acc = Inl e"
  shows "add_pages ia pr acc' = Inl e"
  using assms by (cases "find (\<lambda>x. \<not> in_bounds ia x) pr") (simp_all add: add_pages_find)

lemma select_files_one_fails:
  assumes "ia \<in> set fs" and "add_pages ia (pagerange inverse' ia) acc = Inl e"
  shows "\<exists>e'. select_files inverse' fs out = Inl e'"
  using assms(1)
proof (induction fs arbitrary: out)
  case Nil
  then show ?case by simp
next
  case (Cons a fs)
  show ?case
  proof (cases "add_pages a (pagerange inverse' a) out")
    case (Inl e')
    then show ?thesis by simp
  next
    case (Inr out')
    with assms(2) have "a \<noteq> ia"
      using add_pages_fails_any_acc [of ia "pagerange inverse' ia" acc e out] by auto
    with Cons.prems have "ia \<in> set fs" by simp
    from Cons.IH [OF this, of out'] Inr show ?thesis by simp
  qed
qed

lemma zip_files_one_fails:
  assumes "ia \<in> set fs" and "add_pages ia (pagerange False ia) acc = Inl e"
  shows "\<exists>e'. zip_files fs filestozip = Inl e'"
  using assms(1)
proof (induction fs arbitrary: filestozip)
  case Nil
  then show ?case by simp
next
  case (Cons a fs)
  show ?case
  proof (cases "add_pages a (pagerange False a) []")
    case (Inl e')
    then show ?thesis by simp
  next
    case (Inr pagestozip)
    with assms(2) have "a \<noteq> ia"
      using add_pages_fails_any_acc [of ia "pagerange False ia" acc e "[]"] by auto
    with Cons.prems have "ia \<in> set fs" by simp
    from Cons.IH [OF this, of "filestozip @ [pagestozip]"] Inr show ?thesis by simp
  qed
qed

lemma select_raises_unchanged:
  assumes "fst (select E args inverse' w) \<noteq> None"
  shows "snd (select E args inverse' w) = w"
  using assms by (auto simp: select_def Let_def split: sum.splits option.splits if_splits)

lemma zip_pdfs_raises_unchanged:
  assumes "zip_pdfs E args w = Some (Some e, w')"
  shows "w' = w"
  using assms by (auto simp: zip_pdfs_def Let_def split: sum.splits option.splits if_splits)

lemma select_writes_after_plan:
  assumes "select E args inverse' w = (None, w')"
  shows "\<exists>fs plan. parse_ranges E (butlast args) = Inr fs \<and> select_files inverse' fs [] = Inr plan
           \<and> w' = w @ [(output_path E (last args), plan)]"
  using assms
  by (auto simp: select_def Let_def write_pdf_def split: sum.splits option.splits if_splits)

lemma zip_pdfs_writes_after_plan:
  assumes "zip_pdfs E args w = Some (None, w')"
  shows "\<exists>fs filestozip plan. parse_ranges E (butlast args) = Inr fs
           \<and> zip_files fs [] = Inr filestozip \<and> round_robin_list filestozip = Some plan
           \<and> w' = w @ [(output_path E (last args), plan)]"
  using assms
  by (auto simp: zip_pdfs_def Let_def write_pdf_def split: sum.splits option.splits if_splits)

text \<open>
  C7. For \<open>zip_pdfs\<close>, \<open>select\<close> and \<open>delete\<close> (\<open>select\<close> with \<open>inverse\<close>): when the
  expansion or the check of the bounds fails for one input, the loop over the inputs fails;
  when that loop fails with an exception, the command raises \<open>CommandError\<close> made from that
  exception and the files written are what they were. Whenever one of these commands raises
  anything, no file has been written; and when it has written, it has written once, after
  the pages of all inputs had been collected without an exception.
\<close>

theorem no_output_on_failure:
  "(ia \<in> set fs \<and> add_pages ia (pagerange inverse' ia) acc = Inl e \<longrightarrow>
      (\<exists>e'. select_files inverse' fs out = Inl e'))
   \<and> (ia \<in> set fs \<and> add_pages ia (pagerange False ia) acc = Inl e \<longrightarrow>
      (\<exists>e'. zip_files fs filestozip = Inl e'))
   \<and> (inputs_given E args fs \<and> check_output_file E (last args) = None
       \<and> select_files inverse' fs [] = Inl e \<longrightarrow>
        select E args inverse' w = (Some (CommandError_of e), w))
   \<and> (inputs_given E args fs \<and> zip_files fs [] = Inl e \<longrightarrow>
        zip_pdfs E args w = Some (Some (CommandError_of e), w))
   \<and> (fst (select E args inverse' w) \<noteq> None \<longrightarrow> snd (select E args inverse' w) = w)
   \<and> (zip_pdfs E args w = Some (Some raised, w') \<longrightarrow> w' = w)
   \<and> (select E args inverse' w = (None, w') \<longrightarrow>
        (\<exists>fs plan. parse_ranges E (butlast args) = Inr fs \<and> select_files inverse' fs [] = Inr plan
           \<and> w' = w @ [(output_path E (last args), plan)]))
   \<and> (zip_pdfs E args w = Some (None, w') \<longrightarrow>
        (\<exists>fs filestozip plan. parse_ranges E (butlast args) = Inr fs
           \<and> zip_files fs [] = Inr filestozip \<and> round_robin_list filestozip = Some plan
           \<and> w' = w @ [(output_path E (last args), plan)]))
   \<and> delete E args w = select E args True w"
proof (intro conjI impI)
  assume "ia \<in> set fs \<and> add_pages ia (pagerange inverse' ia) acc = Inl e"
  then show "\<exists>e'. select_files inverse' fs out = Inl e'"
    using select_files_one_fails by blast
next
  assume "ia \<in> set fs \<and> add_pages ia (pagerange False ia) acc = Inl e"
  then show "\<exists>e'. zip_files fs filestozip = Inl e'"
    using zip_files_one_fails by blast
next
  assume a: "inputs_given E args fs \<and> check_output_file E (last args) = None
       \<and> select_files inverse' fs [] = Inl e"
  then have "select E args inverse' w =
           (case select_files inverse' fs [] of
              Inl e \<Rightarrow> (Some (CommandError_of e), w)
            | Inr plan \<Rightarrow> (None, w @ [(output_path E (last args), plan)]))"
    by (intro select_run) simp_all
  with a show "select E args inverse' w = (Some (CommandError_of e), w)" by simp
next
  assume a: "inputs_given E args fs \<and> zip_files fs [] = Inl e"
  then have "zip_pdfs E args w =
           (case zip_files fs [] of
              Inl e \<Rightarrow> Some (Some (CommandError_of e), w)
            | Inr filestozip \<Rightarrow>
                Some (None, w @ [(output_path E (last args), interleave_spec filestozip)]))"
    by (intro zip_pdfs_run) simp
  with a show "zip_pdfs E args w = Some (Some (CommandError_of e), w)" by simp
next
  assume "fst (select E args inverse' w) \<noteq> None"
  then show "snd (select E args inverse' w) = w" by (rule select_raises_unchanged)
next
  assume "zip_pdfs E args w = Some (Some raised, w')"
  then show "w' = w" by (rule zip_pdfs_raises_unchanged)
next
  assume "select E args inverse' w = (None, w')"
  then show "\<exists>fs plan. parse_ranges E (butlast args) = Inr fs \<and> select_files inverse' fs [] = Inr plan
           \<and> w' = w @ [(output_path E (last args), plan)]"
    by (rule select_writes_after_plan)
next
  assume "zip_pdfs E args w = Some (None, w')"
  then show "\<exists>fs filestozip plan. parse_ranges E (butlast args) = Inr fs
           \<and> zip_files fs [] = Inr filestozip \<and> round_robin_list filestozip = Some plan
           \<and> w' = w @ [(output_path E (last args), plan)]"
    by (rule zip_pdfs_writes_after_plan)
next
  show "delete E args w = select E args True w" by (simp add: delete_def)
qed

theorem no_output_on_failure_witness:
  "example_file ''b.pdf'' 3 [(10, ROTATION_NONE)] \<in> set [example_file ''a.pdf'' 2 [], example_file ''b.pdf'' 3 [(10, ROTATION_NONE)]]
   \<and> add_pages (example_file ''b.pdf'' 3 [(10, ROTATION_NONE)]) (pagerange False (example_file ''b.pdf'' 3 [(10, ROTATION_NONE)])) []
       = Inl (page_not_found 10 ''b.pdf'')
   \<and> inputs_given (example_env [example_file ''a.pdf'' 2 [], example_file ''b.pdf'' 3 [(10, ROTATION_NONE)]] 3)
        [''a.pdf'', ''b.pdf'', ''10'', ''o.pdf'']
        [example_file ''a.pdf'' 2 [], example_file ''b.pdf'' 3 [(10, ROTATION_NONE)]]
   \<and> check_output_file (example_env [example_file ''a.pdf'' 2 [], example_file ''b.pdf'' 3 [(10, ROTATION_NONE)]] 3)
        ''o.pdf'' = None
   \<and> select_files False [example_file ''a.pdf'' 2 [], example_file ''b.pdf'' 3 [(10, ROTATION_NONE)]] []
       = Inl (page_not_found 10 ''b.pdf'')
   \<and> zip_files [example_file ''a.pdf'' 2 [], example_file ''b.pdf'' 3 [(10, ROTATION_NONE)]] []
       = Inl (page_not_found 10 ''b.pdf'')
   \<and> select (example_env [example_file ''a.pdf'' 2 [], example_file ''b.pdf'' 3 [(10, ROTATION_NONE)]] 3)
        [''a.pdf'', ''b.pdf'', ''10'', ''o.pdf''] False [(''old.pdf'', [])]
       = (Some (CommandError_of (page_not_found 10 ''b.pdf'')), [(''old.pdf'', [])])
   \<and> zip_pdfs (example_env [example_file ''a.pdf'' 2 [], example_file ''b.pdf'' 3 [(10, ROTATION_NONE)]] 3)
        [''a.pdf'', ''b.pdf'', ''10'', ''o.pdf''] [(''old.pdf'', [])]
       = Some (Some (CommandError_of (page_not_found 10 ''b.pdf'')), [(''old.pdf'', [])])
   \<and> select (example_env [example_file ''a.pdf'' 2 []] 2) [''a.pdf'', ''o.pdf''] False [(''old.pdf'', [])]
       = (None, [(''old.pdf'', []), (''out/o.pdf'', [Page ''a.pdf'' 0 0, Page ''a.pdf'' 1 0])])
   \<and> (\<exists>fs plan. parse_ranges (example_env [example_file ''a.pdf'' 2 []] 2) (butlast [''a.pdf'', ''o.pdf''])
          = Inr fs \<and> select_files False fs [] = Inr plan
        \<and> [(''old.pdf'', []), (''out/o.pdf'', [Page ''a.pdf'' 0 0, Page ''a.pdf'' 1 0])]
            = [(''old.pdf'', [])] @ [(output_path (example_env [example_file ''a.pdf'' 2 []] 2)
                                       (last [''a.pdf'', ''o.pdf'']), plan)])"
proof -
  let ?a = "example_file ''a.pdf'' 2 []" and ?b = "example_file ''b.pdf'' 3 [(10, ROTATION_NONE)]"
  let ?E = "example_env [?a, ?b] 3" and ?args = "[''a.pdf'', ''b.pdf'', ''10'', ''o.pdf'']"
  let ?E2 = "example_env [?a] 2" and ?args2 = "[''a.pdf'', ''o.pdf'']"
  let ?w = "[(''old.pdf'', [])] :: world"
  let ?e = "page_not_found 10 ''b.pdf''"
  have one: "?b \<in> set [?a, ?b] \<and> add_pages ?b (pagerange False ?b) [] = Inl ?e"
    by (simp add: example_file_def pagerange_def add_pages_find in_bounds_def)
  have given: "inputs_given ?E ?args [?a, ?b]" "check_output_file ?E (last ?args) = None"
    by (simp_all add: example_defs)
  have loop: "select_files False [?a, ?b] [] = Inl ?e"
    by (simp add: example_file_def pagerange_def all_pages_def upto_rec1 add_pages_find in_bounds_def
        emitted_def total_rotation_def)
  have zloop: "zip_files [?a, ?b] [] = Inl ?e"
    by (simp add: example_file_def pagerange_def all_pages_def upto_rec1 add_pages_find in_bounds_def
        emitted_def total_rotation_def)
  have ok: "select ?E2 ?args2 False ?w
              = (None, [(''old.pdf'', []), (''out/o.pdf'', [Page ''a.pdf'' 0 0, Page ''a.pdf'' 1 0])])"
    by (simp add: select_def example_defs pagerange_def all_pages_def getPage_def
        write_pdf_def)
  note fail = no_output_on_failure [of ?b "[?a, ?b]" False "[]" ?e "[]" "[]" ?E ?args ?w]
  have sel: "select ?E ?args False ?w = (Some (CommandError_of ?e), ?w)"
    using given loop
    by (intro fail [THEN conjunct2, THEN conjunct2, THEN conjunct1, rule_format] conjI)
  have zp: "zip_pdfs ?E ?args ?w = Some (Some (CommandError_of ?e), ?w)"
    using given(1) zloop
    by (intro fail [THEN conjunct2, THEN conjunct2, THEN conjunct2, THEN conjunct1, rule_format] conjI)
  have "\<exists>fs plan. parse_ranges ?E2 (butlast ?args2) = Inr fs \<and> select_files False fs [] = Inr plan
        \<and> [(''old.pdf'', []), (''out/o.pdf'', [Page ''a.pdf'' 0 0, Page ''a.pdf'' 1 0])]
            = ?w @ [(output_path ?E2 (last ?args2), plan)]"
    using ok
    by (rule no_output_on_failure [of ?b "[?a, ?b]" False "[]" ?e "[]" "[]" ?E2 ?args2 ?w _
        "[(''old.pdf'', []), (''out/o.pdf'', [Page ''a.pdf'' 0 0, Page ''a.pdf'' 1 0])]",
        THEN conjunct2, THEN conjunct2, THEN conjunct2, THEN conjunct2, THEN conjunct2,
        THEN conjunct2, THEN conjunct1, rule_format])
  moreover have "check_output_file ?E ''o.pdf'' = None"
    by (simp add: example_env_def)
  ultimately show ?thesis
    using one given(1) loop zloop sel zp ok by (intro conjI) (simp_all only: simp_thms)
qed

section \<open>Missing inputs\<close>

lemma no_tokens_parsed:
  assumes "args \<noteq> []" and "parse_ranges E (butlast args) = Inr []"
  shows "select E args inverse' w = (Some both_required, w)"
    and "delete E args w = (Some both_required, w)"
    and "zip_pdfs E args w = Some (Some both_required, w)"
  using assms by (simp_all add: select_def delete_def zip_pdfs_def)

lemma no_output_name:
  assumes "args \<noteq> []" and "parse_ranges E (butlast args) = Inr fs" and "last args = []"
  shows "select E args inverse' w = (Some both_required, w)"
    and "zip_pdfs E args w = Some (Some both_required, w)"
  using assms by (simp_all add: select_def zip_pdfs_def)

lemma no_files_expanded:
  assumes "expand_input_files E args = Inr []"
  shows "split E args w = (Some no_input_files, w)" and "info E args = Some no_input_files"
  using assms by (simp_all add: split_def info_def)

lemma no_arguments:
  assumes "parse_ranges E [] = Inr fs"
  shows "select E [] inverse' w = (Some IndexError, w)"
    and "delete E [] w = (Some IndexError, w)"
    and "zip_pdfs E [] w = Some (Some IndexError, w)"
  using assms by (simp_all add: select_def delete_def zip_pdfs_def)

text \<open>
  C8 fails at the empty argument list for \<open>zip_pdfs\<close>, \<open>select\<close> and \<open>delete\<close>: with a
  range parser that returns the empty list for no tokens, \<open>args[-1]\<close> raises \<open>IndexError\<close>
  before the test that would raise the command error for missing file names. With one
  argument, which leaves no input, they raise that command error, and \<open>split\<close> and \<open>info\<close>
  raise theirs for the empty argument list.
\<close>

theorem empty_arguments_index_error:
  "select (example_env fs n) [] inverse' w = (Some IndexError, w)
   \<and> delete (example_env fs n) [] w = (Some IndexError, w)
   \<and> zip_pdfs (example_env fs n) [] w = Some (Some IndexError, w)
   \<and> IndexError \<noteq> both_required
   \<and> select (example_env fs n) [''out.pdf''] inverse' w = (Some both_required, w)
   \<and> zip_pdfs (example_env fs n) [''out.pdf''] w = Some (Some both_required, w)
   \<and> split (example_env fs n) [] w = (Some no_input_files, w)
   \<and> info (example_env fs n) [] = Some no_input_files"
proof -
  have parse: "parse_ranges (example_env fs n) [] = Inr []"
    by (simp add: example_env_def)
  have expand: "expand_input_files (example_env fs n) [] = Inr []"
    by (simp add: example_env_def)
  show ?thesis
    using no_arguments [OF parse] no_tokens_parsed [of "[''out.pdf'']" "example_env fs n"] parse
      no_files_expanded [OF expand]
    by (simp add: both_required_def)
qed

section \<open>The file names of \<open>split\<close>\<close>

lemma ceiling_log10_le_iff:
  assumes "1 \<le> x"
  shows "\<lceil>log 10 (of_int x)\<rceil> \<le> int k \<longleftrightarrow> x \<le> 10 ^ k"
proof -
  have "\<lceil>log 10 (of_int x)\<rceil> \<le> int k \<longleftrightarrow> log 10 (of_int x) \<le> real k"
    by (simp add: ceiling_le_iff)
  also have "\<dots> \<longleftrightarrow> real_of_int x \<le> 10 powr real k"
    using assms by (simp add: log_le_iff)
  also have "\<dots> \<longleftrightarrow> real_of_int x \<le> 10 ^ k"
    by (simp add: powr_realpow)
  also have "\<dots> \<longleftrightarrow> real_of_int x \<le> real_of_int (10 ^ k)"
    by simp
  also have "\<dots> \<longleftrightarrow> x \<le> 10 ^ k"
    by (simp only: of_int_le_iff)
  finally show ?thesis .
qed

lemma ceil_log10_eq:
  assumes "10 ^ k < x" and "x \<le> 10 ^ Suc k"
  shows "ceil_log10 x = Inr (int (Suc k))"
proof -
  have "(1::int) \<le> 10 ^ k" by simp
  with assms(1) have pos: "1 \<le> x" by linarith
  have "\<lceil>log 10 (of_int x)\<rceil> \<le> int (Suc k)"
    using assms(2) by (simp only: ceiling_log10_le_iff [OF pos])
  moreover have "\<not> \<lceil>log 10 (of_int x)\<rceil> \<le> int k"
    using assms(1) by (simp only: ceiling_log10_le_iff [OF pos] not_le)
  ultimately have "\<lceil>log 10 (of_int x)\<rceil> = int (Suc k)" by simp
  with pos show ?thesis by (simp add: ceil_log10_def)
qed

lemma ceil_log10_power: "ceil_log10 (10 ^ k) = Inr (int k)"
proof (cases k)
  case 0
  then show ?thesis by (simp add: ceil_log10_def)
next
  case (Suc j)
  have "(10::int) ^ j < 10 ^ Suc j" by simp
  then have "ceil_log10 (10 ^ Suc j) = Inr (int (Suc j))"
    by (rule ceil_log10_eq) simp
  with Suc show ?thesis by simp
qed

lemma ceil_log10_10: "ceil_log10 10 = Inr 1"
  using ceil_log10_power [of 1] by simp

lemma ceil_log10_12: "ceil_log10 12 = Inr 2"
  using ceil_log10_eq [of 1 12] by simp

lemma ceil_log10_1: "ceil_log10 1 = Inr 0"
  using ceil_log10_power [of 0] by simp

lemma ceil_log10_0: "ceil_log10 0 = Inl ValueError"
  by (simp add: ceil_log10_def)

lemma length_str_nat_pos: "0 < length (str_nat n)"
  by (subst str_nat.simps) simp

lemma str_nat_digits:
  assumes "0 < n"
  shows "10 ^ (length (str_nat n) - 1) \<le> n \<and> n < 10 ^ length (str_nat n)"
  using assms
proof (induction n rule: str_nat.induct)
  case (1 n)
  show ?case
  proof (cases "n < 10")
    case True
    with "1.prems" show ?thesis by (subst (1 2) str_nat.simps) simp
  next
    case False
    let ?l = "length (str_nat (n div 10))"
    from False have "0 < n div 10" by simp
    with "1.IH" False have lo: "10 ^ (?l - 1) \<le> n div 10" and hi: "n div 10 < 10 ^ ?l"
      by simp_all
    from length_str_nat_pos [of "n div 10"] obtain m where m: "?l = Suc m"
      by (cases ?l) simp_all
    have len: "length (str_nat n) = Suc ?l"
      using False by (subst str_nat.simps) simp
    from lo m have "10 ^ ?l \<le> n" by simp
    moreover from hi have "n < 10 ^ Suc ?l" by simp
    ultimately show ?thesis by (simp add: len)
  qed
qed

lemma width_is_digits:
  assumes "1 \<le> x" and "\<forall>k. x \<noteq> 10 ^ k"
  shows "ceil_log10 x = Inr (int (length (str_nat (nat x))))"
proof -
  let ?l = "length (str_nat (nat x))"
  from assms(1) have "0 < nat x" by simp
  from str_nat_digits [OF this] have "10 ^ (?l - 1) \<le> nat x" and "nat x < 10 ^ ?l"
    by simp_all
  with assms(1) have lo: "10 ^ (?l - 1) \<le> x" and hi: "x \<le> 10 ^ ?l"
    by (simp_all add: nat_le_iff nat_less_iff le_nat_iff)
  from length_str_nat_pos [of "nat x"] obtain m where m: "?l = Suc m"
    by (cases ?l) simp_all
  from lo assms(2) m have "10 ^ m < x"
    by (metis diff_Suc_1 order_le_less)
  moreover from hi m have "x \<le> 10 ^ Suc m" by simp
  ultimately have "ceil_log10 x = Inr (int (Suc m))" by (rule ceil_log10_eq)
  with m show ?thesis by simp
qed

lemma width_of_power_of_ten:
  "ceil_log10 (10 ^ k) = Inr (int k) \<and> length (str_nat (nat (10 ^ k))) = Suc k"
proof -
  let ?l = "length (str_nat (10 ^ k))"
  have "10 ^ (?l - 1) \<le> (10::nat) ^ k" and "(10::nat) ^ k < 10 ^ ?l"
    using str_nat_digits [of "10 ^ k"] by simp_all
  then have "?l - 1 \<le> k" and "k < ?l"
    by (simp_all add: power_increasing_iff power_strict_increasing_iff)
  then have l: "?l = Suc k" by linarith
  have n: "nat (10 ^ k) = (10::nat) ^ k"
    by (simp add: nat_power_eq)
  show ?thesis
    unfolding n using l ceil_log10_power [of k] by (intro conjI)
qed

lemmas split_defs = split_def example_env_def output_template_def zero_pad_def os_sep_def
  getPage_def written_def unrotated_def write_pdf_def str_nat.simps digit_char_def upt_rec

lemma write_pages_map:
  "write_pages E input_file template pagenos w
     = w @ map (\<lambda>pageno. (destdir E @ os_sep @ template (pageno + 1),
                             [Page (pdf_file input_file) (int pageno) 0])) pagenos"
  by (induction pagenos arbitrary: w) (simp_all add: write_pdf_def written_def unrotated_def getPage_def)

lemma split_one_file:
  assumes "expand_input_files E args = Inr [f]" and "read_pdf E f = Inr input_file"
    and "splitext_basename E f = (base, ext)" and "ceil_log10 (getNumPages input_file) = Inr width"
  shows "split E args w
           = (None, w @ map (\<lambda>pageno. (destdir E @ os_sep @ base @ ''_''
                                          @ zero_pad (nat width) (str_nat (pageno + 1)) @ ext,
                                        [Page (pdf_file input_file) (int pageno) 0]))
                          [0..<nat (getNumPages input_file)])"
  using assms by (simp add: split_def write_pages_map output_template_def)

lemma split_12_pages:
  "split (example_env [] 12) [''doc.pdf''] []
     = (None, [(''out/doc_01.pdf'', [Page ''doc.pdf'' 0 0]), (''out/doc_02.pdf'', [Page ''doc.pdf'' 1 0]), (''out/doc_03.pdf'', [Page ''doc.pdf'' 2 0]), (''out/doc_04.pdf'', [Page ''doc.pdf'' 3 0]), (''out/doc_05.pdf'', [Page ''doc.pdf'' 4 0]), (''out/doc_06.pdf'', [Page ''doc.pdf'' 5 0]), (''out/doc_07.pdf'', [Page ''doc.pdf'' 6 0]), (''out/doc_08.pdf'', [Page ''doc.pdf'' 7 0]), (''out/doc_09.pdf'', [Page ''doc.pdf'' 8 0]), (''out/doc_10.pdf'', [Page ''doc.pdf'' 9 0]), (''out/doc_11.pdf'', [Page ''doc.pdf'' 10 0]), (''out/doc_12.pdf'', [Page ''doc.pdf'' 11 0])])"
  by (simp add: split_defs ceil_log10_12)

lemma split_1_page:
  "split (example_env [] 1) [''doc.pdf''] [] = (None, [(''out/doc_1.pdf'', [Page ''doc.pdf'' 0 0])])"
  by (simp add: split_defs ceil_log10_1)

lemma split_0_pages:
  "split (example_env [] 0) [''doc.pdf''] [] = (Some ValueError, [])"
  by (simp add: split_defs ceil_log10_0)

text \<open>
  C2 fails for a file of 10 pages: \<open>math.ceil(math.log10(10))\<close> is 1, one less than the
  number of digits of 10, so \<open>split\<close> names the pages \<open>_1\<close> to \<open>_9\<close> and \<open>_10\<close>, not
  \<open>_01\<close> to \<open>_10\<close>.
\<close>

theorem split_ten_pages_names:
  "split (example_env [] 10) [''doc.pdf''] []
     = (None, [(''out/doc_1.pdf'', [Page ''doc.pdf'' 0 0]), (''out/doc_2.pdf'', [Page ''doc.pdf'' 1 0]), (''out/doc_3.pdf'', [Page ''doc.pdf'' 2 0]), (''out/doc_4.pdf'', [Page ''doc.pdf'' 3 0]), (''out/doc_5.pdf'', [Page ''doc.pdf'' 4 0]), (''out/doc_6.pdf'', [Page ''doc.pdf'' 5 0]), (''out/doc_7.pdf'', [Page ''doc.pdf'' 6 0]), (''out/doc_8.pdf'', [Page ''doc.pdf'' 7 0]), (''out/doc_9.pdf'', [Page ''doc.pdf'' 8 0]), (''out/doc_10.pdf'', [Page ''doc.pdf'' 9 0])])
   \<and> ceil_log10 10 = Inr 1
   \<and> length (str_nat 10) = 2"
  by (simp add: split_defs ceil_log10_10)

end
